theory Spec2Isabelle
  imports Complex_Main "HOL-Library.Log_Nat"
begin

section \<open>Python values, errors and generators\<close>

text \<open>
  The notebook \<^verbatim>\<open>src/unnamed/part_000\<close> (Phi-3 as relevance judge) is embedded
  function by function. Python exceptions are values of \<open>py_error\<close>; a function that
  can raise returns \<open>py_error + 'a\<close> with \<open>Inl\<close> for the raise. Names that
  Isabelle cannot take lose their underscores: \<^verbatim>\<open>__init__\<close> is \<open>init\<close>,
  \<^verbatim>\<open>__call__\<close> is \<open>call\<close>, \<^verbatim>\<open>_postprocess_output\<close> is
  \<open>postprocess_output\<close>, \<^verbatim>\<open>_get_generation_args\<close> is \<open>get_generation_args\<close>.
\<close>

datatype py_error = AssertionError | KeyError | IndexError | ZeroDivisionError | ValueError

text \<open>
  The values stored in the keyword dictionary handed to the text-generation pipeline.
  A finite Python float is the rational number it denotes.
\<close>

datatype pyval = PyBool bool | PyInt int | PyFloat rat

type_synonym pydict = "string \<rightharpoonup> pyval"

text \<open>
  A Python generator (a \<^verbatim>\<open>def\<close> with \<^verbatim>\<open>yield\<close>) is the sequence of the
  values it yields, ended by normal exhaustion (\<open>Done\<close>) or by an exception that
  escapes its body (\<open>Raise\<close>).
\<close>

datatype 'a gen = Done | Raise py_error | Yield 'a "'a gen"

fun gen_of_list :: "'a list \<Rightarrow> 'a gen" where
  "gen_of_list [] = Done"
| "gen_of_list (x # xs) = Yield x (gen_of_list xs)"

text \<open>What a consumer sees: the values yielded, and how the generator ends.\<close>

fun yielded :: "'a gen \<Rightarrow> 'a list" where
  "yielded Done = []"
| "yielded (Raise e) = []"
| "yielded (Yield x g) = x # yielded g"

fun ending :: "'a gen \<Rightarrow> py_error option" where
  "ending Done = None"
| "ending (Raise e) = Some e"
| "ending (Yield x g) = ending g"

text \<open>\<^verbatim>\<open>[f(x) for x in g]\<close>, \<^verbatim>\<open>list(g)\<close>: run the generator to its end.\<close>

fun collect :: "'a gen \<Rightarrow> py_error + 'a list" where
  "collect Done = Inr []"
| "collect (Raise e) = Inl e"
| "collect (Yield x g) = (case collect g of Inl e \<Rightarrow> Inl e | Inr xs \<Rightarrow> Inr (x # xs))"

text \<open>
  \<^verbatim>\<open>zip(g, h)\<close>: each step asks \<open>g\<close> first and \<open>h\<close> second, and stops at the
  first one that is exhausted or raises.
\<close>

fun zip_gen :: "'a gen \<Rightarrow> 'b gen \<Rightarrow> ('a \<times> 'b) gen" where
  "zip_gen Done h = Done"
| "zip_gen (Raise e) h = Raise e"
| "zip_gen (Yield x g) Done = Done"
| "zip_gen (Yield x g) (Raise e) = Raise e"
| "zip_gen (Yield x g) (Yield y h) = Yield (x, y) (zip_gen g h)"

section \<open>Floats\<close>

text \<open>
  Python floats are IEEE 754 binary64 numbers. A finite float is modelled by the rational
  it denotes, and an operation by the exact result rounded to the nearest float, ties to
  the even significand (overflow and subnormal numbers are out of reach of the quotients
  of list lengths computed here). \<open>rhe\<close> rounds a rational to the nearest integer,
  ties to even; \<open>binade x\<close> is the exponent \<open>k\<close> with \<open>2^k \<le> x < 2^(k+1)\<close>.
\<close>

definition rhe :: "rat \<Rightarrow> int" where
  "rhe x = (let f = \<lfloor>x\<rfloor>; d = x - of_int f
            in if d < 1 / 2 then f else if 1 / 2 < d then f + 1
               else if even f then f else f + 1)"

definition binade :: "rat \<Rightarrow> int" where
  "binade x = (let (a, b) = quotient_of x;
                   k = int (floorlog 2 (nat a)) - int (floorlog 2 (nat b))
               in if 2 powi k \<le> x then k else k - 1)"

definition nearest_double :: "rat \<Rightarrow> rat" where
  "nearest_double x =
     (if x = 0 then 0
      else let u = 2 powi (binade \<bar>x\<bar> - 52) in sgn x * of_int (rhe (\<bar>x\<bar> / u)) * u)"

text \<open>\<^verbatim>\<open>a / b\<close> on two ints: the correctly rounded quotient, or ZeroDivisionError.\<close>

definition py_truediv :: "int \<Rightarrow> int \<Rightarrow> py_error + rat" where
  "py_truediv a b =
     (if b = 0 then Inl ZeroDivisionError else Inr (nearest_double (of_int a / of_int b)))"

text \<open>
  \<^verbatim>\<open>round(x, ndigits)\<close> on a float: the exact value of \<open>x\<close> is rounded to
  \<open>ndigits\<close> decimal places, ties to even, and the float nearest to that decimal is
  returned.
\<close>

definition py_round :: "rat \<Rightarrow> nat \<Rightarrow> rat" where
  "py_round x ndigits = nearest_double (of_int (rhe (x * 10 ^ ndigits)) / 10 ^ ndigits)"

section \<open>Counting votes\<close>

text \<open>
  \<^verbatim>\<open>collections.Counter(xs)\<close> is a dict filled by \<^verbatim>\<open>self[x] = self.get(x, 0) + 1\<close>
  for each element in turn; a dict keeps its keys in the order of their first insertion,
  so it is an association list here.
\<close>

fun counter_incr :: "('a \<times> nat) list \<Rightarrow> 'a \<Rightarrow> ('a \<times> nat) list" where
  "counter_incr [] x = [(x, 1)]"
| "counter_incr ((k, c) # kcs) x =
     (if k = x then (k, c + 1) # kcs else (k, c) # counter_incr kcs x)"

definition Counter :: "'a list \<Rightarrow> ('a \<times> nat) list" where
  "Counter xs = foldl counter_incr [] xs"

text \<open>
  \<^verbatim>\<open>most_common(1)\<close> is \<^verbatim>\<open>heapq.nlargest(1, self.items(), key=itemgetter(1))\<close>,
  which for one element is \<^verbatim>\<open>max(items, key=...)\<close>: a running best that an item
  replaces only when its count is strictly greater. The result is a list of at most one
  item.
\<close>

fun max_by_count :: "('a \<times> nat) \<Rightarrow> ('a \<times> nat) list \<Rightarrow> ('a \<times> nat)" where
  "max_by_count best [] = best"
| "max_by_count best (it # its) = max_by_count (if snd best < snd it then it else best) its"

definition most_common_1 :: "('a \<times> nat) list \<Rightarrow> ('a \<times> nat) list" where
  "most_common_1 items = (case items of [] \<Rightarrow> [] | it # its \<Rightarrow> [max_by_count it its])"

section \<open>Searching for a response type\<close>

text \<open>
  \<^verbatim>\<open>re.search(pattern, text, re.IGNORECASE)\<close> belongs to Python's library. What
  holds of every output string is stated with the search as a parameter
  (\<open>postprocess_with\<close> below). Where a concrete search is needed, on the sample
  inputs, \<open>re_search\<close> is the library's search on its ASCII fragment: the pattern
  \<^verbatim>\<open>__init__\<close> builds from response types free of regex metacharacters
  (\<open>plain\<close>), as all response types of \<open>POOL\<close> are, is a parenthesised
  alternation of literal strings, and pattern and text are ASCII. The search takes the
  leftmost position of the text at which an alternative matches and, there, the first
  alternative in the order of the pattern that does; letters are compared without regard
  to case (\<open>lower\<close> folds the ASCII letters). The result is the matched part of the
  text, \<^verbatim>\<open>match.group()\<close>, or \<open>None\<close>. Outside the fragment (a
  metacharacter in a response type, a letter beyond ASCII) the library can match where
  \<open>re_search\<close> does not.
\<close>

definition lower :: "char \<Rightarrow> char" where
  "lower c = (case map_of (zip ''ABCDEFGHIJKLMNOPQRSTUVWXYZ'' ''abcdefghijklmnopqrstuvwxyz'') c
              of Some l \<Rightarrow> l | None \<Rightarrow> c)"

definition plain :: "string \<Rightarrow> bool" where
  "plain s = (\<forall>c \<in> set s. c \<notin> set (''.^$*+?{}[]|()'' @ [CHR 0x5C]))"

text \<open>\<^verbatim>\<open>s.split("|")\<close>\<close>

fun split_bar :: "string \<Rightarrow> string list" where
  "split_bar [] = [[]]"
| "split_bar (c # cs) =
     (if c = CHR ''|'' then [] # split_bar cs
      else (case split_bar cs of [] \<Rightarrow> [[c]] | x # xs \<Rightarrow> (c # x) # xs))"

text \<open>The alternatives of a pattern \<^verbatim>\<open>(a|b|...)\<close>.\<close>

definition alternatives :: "string \<Rightarrow> string list" where
  "alternatives pattern = split_bar (butlast (tl pattern))"

definition prefix_ci :: "string \<Rightarrow> string \<Rightarrow> bool" where
  "prefix_ci a s = (length a \<le> length s \<and> map lower (take (length a) s) = map lower a)"

fun match_here :: "string list \<Rightarrow> string \<Rightarrow> string option" where
  "match_here [] s = None"
| "match_here (a # alts) s =
     (if prefix_ci a s then Some (take (length a) s) else match_here alts s)"

fun search_from :: "string list \<Rightarrow> string \<Rightarrow> string option" where
  "search_from alts [] = match_here alts []"
| "search_from alts (c # cs) =
     (case match_here alts (c # cs) of Some m \<Rightarrow> Some m | None \<Rightarrow> search_from alts cs)"

definition re_search :: "string \<Rightarrow> string \<Rightarrow> string option" where
  "re_search pattern text = search_from (alternatives pattern) text"

section \<open>The evaluator\<close>

text \<open>
  One message of a chat prompt, \<^verbatim>\<open>{"role": ..., "content": ...}\<close>, and one
  generation returned by the pipeline, \<^verbatim>\<open>{"generated_text": ...}\<close>. For one
  input the pipeline returns a single generation (a dict) or a list of them.
\<close>

record message =
  role :: string
  content :: string

record generation =
  generated_text :: string

datatype pipe_output = Single generation | Multiple "generation list"

text \<open>
  The fields \<^verbatim>\<open>Phi3Evaluator.__init__\<close> sets. The model and the tokenizer are
  external; \<open>pipeline\<close> stands for the text-generation pipeline they make up: the
  function from the keyword arguments and one chat to what the pipeline returns for it.
  Called on a list of chats the pipeline returns one such output for each, in order.
\<close>

record Phi3Evaluator =
  pipeline :: "pydict \<Rightarrow> message list \<Rightarrow> pipe_output"
  regex_str :: "string option"
  temperature :: rat
  iterations :: int

text \<open>\<^verbatim>\<open>sep.join(xs)\<close>\<close>

fun join :: "string \<Rightarrow> string list \<Rightarrow> string" where
  "join sep [] = []"
| "join sep [x] = x"
| "join sep (x # y # ys) = x @ sep @ join sep (y # ys)"

definition init :: "(pydict \<Rightarrow> message list \<Rightarrow> pipe_output) \<Rightarrow> string list \<Rightarrow> int \<Rightarrow> rat
    \<Rightarrow> Phi3Evaluator" where
  "init pipe response_types its temp =
     \<lparr> pipeline = pipe,
       regex_str = (if response_types \<noteq> []
                    then Some (''('' @ join ''|'' response_types @ '')'') else None),
       temperature = temp,
       iterations = its \<rparr>"

definition get_generation_args :: "Phi3Evaluator \<Rightarrow> pydict" where
  "get_generation_args self =
     (if temperature self > 0
      then [''return_full_text'' \<mapsto> PyBool False,
            ''temperature'' \<mapsto> PyFloat (temperature self),
            ''do_sample'' \<mapsto> PyBool True,
            ''num_return_sequences'' \<mapsto> PyInt (iterations self),
            ''num_beams'' \<mapsto> PyInt (2 * iterations self)]
      else [''return_full_text'' \<mapsto> PyBool False,
            ''do_sample'' \<mapsto> PyBool False,
            ''num_return_sequences'' \<mapsto> PyInt 1])"

text \<open>
  \<^verbatim>\<open>_postprocess_output\<close>, with the library call
  \<^verbatim>\<open>re.search(self.regex_str, llm_out, re.IGNORECASE)\<close> as the parameter
  \<open>search\<close>: the matched text \<^verbatim>\<open>match.group()\<close>, or \<open>None\<close>.
  \<^verbatim>\<open>if not self.regex_str\<close> holds for \<open>None\<close> and for the empty string;
  a match object is always true. \<open>postprocess_output\<close> is the function with the
  search of literal alternatives put for the library's.
\<close>

definition postprocess_with :: "(string \<Rightarrow> string \<Rightarrow> string option) \<Rightarrow> Phi3Evaluator \<Rightarrow> string
    \<Rightarrow> string" where
  "postprocess_with search self llm_out =
     (case regex_str self of
        None \<Rightarrow> llm_out
      | Some r \<Rightarrow>
          if r = [] then llm_out
          else (case search r llm_out of Some m \<Rightarrow> m | None \<Rightarrow> ''Unparsable''))"

definition postprocess_output :: "Phi3Evaluator \<Rightarrow> string \<Rightarrow> string" where
  "postprocess_output self llm_out = postprocess_with re_search self llm_out"

text \<open>The local variables of the loop body of \<^verbatim>\<open>__call__\<close>, for one pipeline output.\<close>

definition llm_outputs :: "pipe_output \<Rightarrow> string list" where
  "llm_outputs output =
     map generated_text (case output of Single d \<Rightarrow> [d] | Multiple ds \<Rightarrow> ds)"

definition parsed_outputs :: "Phi3Evaluator \<Rightarrow> pipe_output \<Rightarrow> string list" where
  "parsed_outputs self output = map (postprocess_output self) (llm_outputs output)"

definition clean_outputs :: "Phi3Evaluator \<Rightarrow> pipe_output \<Rightarrow> string list" where
  "clean_outputs self output = filter (\<lambda>out. out \<noteq> ''Unparsable'') (parsed_outputs self output)"

text \<open>
  The loop body: what is yielded for one pipeline output, or the exception raised.
  \<open>winning_label[0]\<close> raises IndexError on an empty list and the division raises
  ZeroDivisionError on a zero length. The float \<open>-1.0\<close> is the rational \<open>-1\<close>.
\<close>

type_synonym verdict = "string list \<times> string \<times> rat"

definition judge :: "Phi3Evaluator \<Rightarrow> pipe_output \<Rightarrow> py_error + verdict" where
  "judge self output =
     (let clean = clean_outputs self output in
      if clean \<noteq> [] then
        (case most_common_1 (Counter clean) of
           [] \<Rightarrow> Inl IndexError
         | winning_label # _ \<Rightarrow>
             (case py_truediv (int (snd winning_label)) (int (length clean)) of
                Inl e \<Rightarrow> Inl e
              | Inr q \<Rightarrow> Inr (llm_outputs output, fst winning_label, py_round q 2)))
      else Inr (llm_outputs output, ''Unparsable'', - 1))"

fun judge_all :: "Phi3Evaluator \<Rightarrow> pipe_output list \<Rightarrow> verdict gen" where
  "judge_all self [] = Done"
| "judge_all self (output # outputs) =
     (case judge self output of
        Inl e \<Rightarrow> Raise e
      | Inr j \<Rightarrow> Yield j (judge_all self outputs))"

text \<open>
  \<^verbatim>\<open>__call__\<close>: the prompts (any iterable, so a generator) are consumed whole by
  the list comprehension before the pipeline is called.
\<close>

definition gen_args :: "Phi3Evaluator \<Rightarrow> int \<Rightarrow> int \<Rightarrow> pydict" where
  "gen_args self max_output_tokens batch_size =
     (get_generation_args self)
       (''batch_size'' \<mapsto> PyInt batch_size, ''max_new_tokens'' \<mapsto> PyInt max_output_tokens)"

definition call :: "Phi3Evaluator \<Rightarrow> string gen \<Rightarrow> int \<Rightarrow> int \<Rightarrow> verdict gen" where
  "call self prompts max_output_tokens batch_size =
     (case collect prompts of
        Inl e \<Rightarrow> Raise e
      | Inr ps \<Rightarrow>
          let inputs_for_pipeline = map (\<lambda>prompt. [\<lparr>role = ''user'', content = prompt\<rparr>]) ps
          in judge_all self
               (map (pipeline self (gen_args self max_output_tokens batch_size))
                    inputs_for_pipeline))"

section \<open>Prompts and tasks\<close>

abbreviation NL :: string where
  "NL \<equiv> [CHR 0x0A]"

definition QA_POINTWISE_RELEVANCE_PROMPT_TEMPLATE :: string where
  \<open>QA_POINTWISE_RELEVANCE_PROMPT_TEMPLATE =
     ''You are an expert in information retrieval and your task is to estimate the relevance of a retrieved document to a'' @
     '' query.'' @ NL @
     ''More specifically, you will be provided with two pieces of information:'' @ NL @
     ''- Query, which is the question we want to answer'' @ NL @
     ''- Retrieved Document, which is the document we want to evaluate.'' @ NL @ NL @
     ''Your task is to predict "Relevant" if the Retrieved Document contains the information required to provide an '' @
     ''answer to the Query, otherwise you should print "Not Relevant" '' @ NL @
     ''#####'' @ NL @
     ''Here are your inputs:'' @ NL @
     ''Query: {query_text}'' @ NL @
     ''Retrieved Document: {retrieved_text}'' @ NL @
     ''#####'' @ NL @ NL @
     ''Take a step back and reflect carefully on how best to solve your task'' @ NL @
     ''You should provide your answer in the form of a boolean value: "Relevant" or "Not Relevant"'' @ NL\<close>

definition CHAIN_OF_THOUGHT_PROMPT_TEMPLATE :: string where
  \<open>CHAIN_OF_THOUGHT_PROMPT_TEMPLATE =
     ''You are an expert in information retrieval and your task is to decide if a retrieved '' @
     ''document is relevant to a query or not. You will be provided with two pieces of information:'' @ NL @
     ''- QUERY, which is a web search'' @ NL @
     ''- DOCUMENT, which is a web page snippet'' @ NL @
     ''Your task is to predict "Relevant" if the DOCUMENT contains the information required '' @
     ''to provide an answer to the QUERY, otherwise you should predict "Not Relevant".'' @ NL @
     ''Solve this task step by step and use the following examples for help.'' @ NL @ NL @
     ''####'' @ NL @
     ''Example 1'' @ NL @
     ''QUERY: define interconnected'' @ NL @
     ''DOCUMENT: Matching (adjective) corresponding in pattern, colour, or design; complementary.'' @ NL @
     ''Intent: The query is looking for the dictionary definition of the term "interconnected".'' @ NL @
     ''Key Information: The document provides a definition of the term "matching".'' @ NL @
     ''Explanation: The term "matching" is closely related to the word "interconnected". However, the query is '' @
     ''asking for the dictionary definition of "interconnected", not "matching".'' @ NL @
     ''Answer: "Not Relevant"'' @ NL @ NL @
     ''Example 2'' @ NL @
     ''QUERY: what are some good chocolate cake recipes'' @ NL @
     ''DOCUMENT: Here are some of the best chocolate cakes to make yourself.'' @ NL @
     ''Intent: The query is looking for chocolate cake recipes.'' @ NL @
     ''Key Information: The document provides a list of chocolate cakes you can make yourself.'' @ NL @
     ''Explanation: The document provides information about chocolate cakes you can make yourself. This makes it '' @
     ''very likely that it provides their recipes as well.'' @ NL @
     ''Answer: "Relevant"'' @ NL @ NL @
     ''Example 3'' @ NL @
     ''QUERY: enable parental controls on Netflix'' @ NL @
     ''DOCUMENT: Here's how to turn on parental controls on Amazon Prime Video:'' @ NL @
     ''Intent: The query is looking for instructions on how to enable parental controls on Netflix.'' @ NL @
     ''Key Information: The document provides instructions on how to turn on parental controls on Amazon Prime Video.'' @ NL @
     ''Explanation: The document provides instructions for how to turn on parental controls for Amazon Prime Video, '' @
     ''not Netflix.'' @ NL @
     ''Answer: "Not Relevant"'' @ NL @ NL @
     ''####'' @ NL @ NL @
     ''To solve your task, first check if any of the examples are useful, then think carefully if '' @
     ''Key Information matches the Intent. Use the following format:'' @ NL @
     ''Intent: [the intent behind QUERY]'' @ NL @
     ''Key Information: [the key information contained in DOCUMENT]'' @ NL @
     ''Explanation: [your explanation]'' @ NL @
     ''Answer: [your answer]'' @ NL @
     ''[your answer] should be either "Relevant" or "Not Relevant".'' @ NL @
     ''Here are the QUERY and DOCUMENT for you to evaluate:'' @ NL @
     ''QUERY: {query_text}'' @ NL @
     ''DOCUMENT: {retrieved_text}'' @ NL\<close>

definition QA_PAIRWISE_RELEVANCE_PROMPT_TEMPLATE :: string where
  \<open>QA_PAIRWISE_RELEVANCE_PROMPT_TEMPLATE =
     ''You are an expert in information retrieval and your task is to estimate the relevance of a retrieved document to a query.'' @ NL @
     ''More specifically, you will be provided with three pieces of information:'' @ NL @
     ''- Query, which is the question we want to answer'' @ NL @
     ''- Positive Document, which is a document that contains the correct answer to the query'' @ NL @
     ''- Retrieved Document, which is the document we want to evaluate'' @ NL @
     ''Your task is to predict "Relevant" if the Retrieved Document contains the information required to provide an answer to the Query, otherwise you should print "Not Relevant" '' @ NL @
     ''You can take advantage of the information in the Positive Document to identify the correct answer to the Query and then verify that the Retrieved Document contains that piece of information'' @ NL @
     ''#####'' @ NL @
     ''Here are your inputs:'' @ NL @
     ''Query: {query_text}'' @ NL @
     ''Positive Document: {positive_text}'' @ NL @
     ''Retrieved Document: {retrieved_text}'' @ NL @
     ''#####'' @ NL @ NL @
     ''Take a step back and reflect carefully on how best to solve your task'' @ NL @
     ''You should provide your answer in the form of a boolean value: "Relevant" or "Not Relevant"'' @ NL @
     ''Good luck!''\<close>

text \<open>One entry of \<open>POOL\<close>, and \<open>POOL\<close>, a dict from task names.\<close>

record task_def =
  prompt_inputs :: "string list"
  prompt_template :: string
  response_types :: "string list"
  metadata :: "string list"
  max_output_tokens :: int

definition POOL :: "string \<rightharpoonup> task_def" where
  \<open>POOL =
     [''qa_pointwise'' \<mapsto>
        \<lparr> prompt_inputs = [''query_text'', ''retrieved_text''],
          prompt_template = QA_POINTWISE_RELEVANCE_PROMPT_TEMPLATE,
          response_types = [''Relevant'', ''Not Relevant''],
          metadata = [''qid'', ''retrieved_doc_id'', ''human_judgment''],
          max_output_tokens = 4 \<rparr>,
      ''qa_pairwise'' \<mapsto>
        \<lparr> prompt_inputs = [''query_text'', ''positive_text'', ''retrieved_text''],
          prompt_template = QA_PAIRWISE_RELEVANCE_PROMPT_TEMPLATE,
          response_types = [''Relevant'', ''Not Relevant''],
          metadata = [''qid'', ''retrieved_doc_id'', ''human_judgment''],
          max_output_tokens = 4 \<rparr>,
      ''chain_of_thought'' \<mapsto>
        \<lparr> prompt_inputs = [''query_text'', ''retrieved_text''],
          prompt_template = CHAIN_OF_THOUGHT_PROMPT_TEMPLATE,
          response_types = [''Answer: "Relevant"'', ''Answer: "Not Relevant"''],
          metadata = [''qid'', ''retrieved_doc_id'', ''human_judgment''],
          max_output_tokens = 250 \<rparr>]\<close>

text \<open>
  \<^verbatim>\<open>get_llm_evaluator\<close>; the pipeline stands for the model loaded from
  \<^verbatim>\<open>model_name_or_path\<close>.
\<close>

definition get_llm_evaluator :: "(pydict \<Rightarrow> message list \<Rightarrow> pipe_output) \<Rightarrow> string \<Rightarrow> int \<Rightarrow> rat
    \<Rightarrow> py_error + Phi3Evaluator" where
  "get_llm_evaluator pipe task_type its temp =
     (case POOL task_type of
        None \<Rightarrow> Inl ValueError
      | Some task_type_def \<Rightarrow> Inr (init pipe (response_types task_type_def) its temp))"

text \<open>
  \<^verbatim>\<open>template.format(**kwargs)\<close> with string values and no positional argument,
  for templates whose replacement fields are plain names (no conversion, format
  specification, attribute or index), as those of the three prompt templates are. The
  string is read from left to right: \<^verbatim>\<open>{{\<close> and \<^verbatim>\<open>}}\<close> stand for a brace,
  \<^verbatim>\<open>{name}\<close> for the value of \<open>name\<close>; a lone brace is a ValueError, an
  unknown name a KeyError, an empty or numbered field an IndexError.
\<close>

datatype fmt_state = Text | Opened | Closed | Field string

definition emit :: "string \<Rightarrow> py_error + string \<Rightarrow> py_error + string" where
  "emit s r = (case r of Inl e \<Rightarrow> Inl e | Inr t \<Rightarrow> Inr (s @ t))"

definition get_field :: "(string \<rightharpoonup> string) \<Rightarrow> string \<Rightarrow> py_error + string" where
  "get_field kwargs name =
     (if list_all (\<lambda>c. c \<in> set ''0123456789'') name then Inl IndexError
      else (case kwargs name of None \<Rightarrow> Inl KeyError | Some v \<Rightarrow> Inr v))"

fun fmt_scan :: "(string \<rightharpoonup> string) \<Rightarrow> fmt_state \<Rightarrow> string \<Rightarrow> py_error + string" where
  "fmt_scan kwargs Text [] = Inr []"
| "fmt_scan kwargs Opened [] = Inl ValueError"
| "fmt_scan kwargs Closed [] = Inl ValueError"
| "fmt_scan kwargs (Field f) [] = Inl ValueError"
| "fmt_scan kwargs Text (c # cs) =
     (if c = CHR ''{'' then fmt_scan kwargs Opened cs
      else if c = CHR ''}'' then fmt_scan kwargs Closed cs
      else emit [c] (fmt_scan kwargs Text cs))"
| "fmt_scan kwargs Opened (c # cs) =
     (if c = CHR ''{'' then emit ''{'' (fmt_scan kwargs Text cs)
      else if c = CHR ''}'' then
        (case get_field kwargs [] of
           Inl e \<Rightarrow> Inl e
         | Inr v \<Rightarrow> emit v (fmt_scan kwargs Text cs))
      else fmt_scan kwargs (Field [c]) cs)"
| "fmt_scan kwargs Closed (c # cs) =
     (if c = CHR ''}'' then emit ''}'' (fmt_scan kwargs Text cs) else Inl ValueError)"
| "fmt_scan kwargs (Field f) (c # cs) =
     (if c = CHR ''}'' then
        (case get_field kwargs f of
           Inl e \<Rightarrow> Inl e
         | Inr v \<Rightarrow> emit v (fmt_scan kwargs Text cs))
      else fmt_scan kwargs (Field (f @ [c])) cs)"

definition format_str :: "string \<Rightarrow> (string \<rightharpoonup> string) \<Rightarrow> py_error + string" where
  "format_str template kwargs = fmt_scan kwargs Text template"

text \<open>
  What \<open>the template formatted with the fields\<close> means, to compare \<open>format_str\<close>
  with: the result is the template, read from left to right, with every replacement
  field \<^verbatim>\<open>{name}\<close> replaced by the value of \<open>name\<close>, every doubled brace by a
  single one, and every other character kept.
\<close>

inductive formatted_with :: "(string \<rightharpoonup> string) \<Rightarrow> string \<Rightarrow> string \<Rightarrow> bool"
  for kwargs :: "string \<rightharpoonup> string" where
  finished: "formatted_with kwargs [] []"
| kept: "c \<noteq> CHR ''{'' \<Longrightarrow> c \<noteq> CHR ''}'' \<Longrightarrow> formatted_with kwargs template result \<Longrightarrow>
     formatted_with kwargs (c # template) (c # result)"
| brace_open: "formatted_with kwargs template result \<Longrightarrow>
     formatted_with kwargs (''{{'' @ template) (CHR ''{'' # result)"
| brace_close: "formatted_with kwargs template result \<Longrightarrow>
     formatted_with kwargs (''}}'' @ template) (CHR ''}'' # result)"
| replaced: "name \<noteq> [] \<Longrightarrow> hd name \<noteq> CHR ''{'' \<Longrightarrow> CHR ''}'' \<notin> set name \<Longrightarrow>
     \<not> list_all (\<lambda>c. c \<in> set ''0123456789'') name \<Longrightarrow> kwargs name = Some v \<Longrightarrow>
     formatted_with kwargs template result \<Longrightarrow>
     formatted_with kwargs (''{'' @ name @ ''}'' @ template) (v @ result)"

text \<open>
  An input record is a dict from field names to strings.
  \<^verbatim>\<open>all(key in line for key in necessary_keys)\<close> is \<open>has_keys\<close> and
  \<^verbatim>\<open>{key: line[key] for key in keys}\<close> is \<open>dict_comp\<close>, where \<^verbatim>\<open>line[key]\<close>
  raises KeyError on a missing key.
\<close>

type_synonym line = "string \<rightharpoonup> string"

definition has_keys :: "string list \<Rightarrow> line \<Rightarrow> bool" where
  "has_keys necessary_keys line = list_all (\<lambda>key. line key \<noteq> None) necessary_keys"

fun dict_comp :: "string list \<Rightarrow> line \<Rightarrow> py_error + (string \<times> string) list" where
  "dict_comp [] line = Inr []"
| "dict_comp (key # keys) line =
     (case line key of
        None \<Rightarrow> Inl KeyError
      | Some v \<Rightarrow> (case dict_comp keys line of Inl e \<Rightarrow> Inl e | Inr kvs \<Rightarrow> Inr ((key, v) # kvs)))"

fun prompts_loop :: "task_def \<Rightarrow> line list \<Rightarrow> string gen" where
  "prompts_loop td [] = Done"
| "prompts_loop td (line # data) =
     (if \<not> has_keys (prompt_inputs td @ metadata td) line then Raise AssertionError
      else (case dict_comp (prompt_inputs td) line of
              Inl e \<Rightarrow> Raise e
            | Inr inputs \<Rightarrow>
                (case format_str (prompt_template td) (map_of inputs) of
                   Inl e \<Rightarrow> Raise e
                 | Inr prompt \<Rightarrow> Yield prompt (prompts_loop td data))))"

definition generate_prompts :: "line list \<Rightarrow> string \<Rightarrow> string gen" where
  "generate_prompts data task_type =
     (case POOL task_type of None \<Rightarrow> Raise KeyError | Some td \<Rightarrow> prompts_loop td data)"

fun data_loop :: "task_def \<Rightarrow> line list \<Rightarrow> line gen" where
  "data_loop td [] = Done"
| "data_loop td (line # data) =
     (if \<not> has_keys (prompt_inputs td @ metadata td) line then Raise AssertionError
      else Yield line (data_loop td data))"

definition generate_data :: "line list \<Rightarrow> string \<Rightarrow> line gen" where
  "generate_data data task_type =
     (case POOL task_type of None \<Rightarrow> Raise KeyError | Some td \<Rightarrow> data_loop td data)"

text \<open>
  The cell that runs the pipeline: every verdict is zipped with its record and stored
  as one \<^verbatim>\<open>json_out\<close> dict, whose copied fields are \<open>copied\<close>.
\<close>

record json_out =
  copied :: "(string \<times> string) list"
  LLM_raw_response :: "string list"
  LLM_mapped_response :: string
  LLM_agreement :: rat

fun outputs_loop :: "task_def \<Rightarrow> (verdict \<times> line) gen \<Rightarrow> py_error + json_out list" where
  "outputs_loop td Done = Inr []"
| "outputs_loop td (Raise e) = Inl e"
| "outputs_loop td (Yield ((raw_responses, mapped_response, agreement), data_tuple) g) =
     (case dict_comp (metadata td @ prompt_inputs td) data_tuple of
        Inl e \<Rightarrow> Inl e
      | Inr kvs \<Rightarrow>
          (case outputs_loop td g of
             Inl e \<Rightarrow> Inl e
           | Inr outputs \<Rightarrow>
               Inr (\<lparr> copied = kvs, LLM_raw_response = raw_responses,
                      LLM_mapped_response = mapped_response,
                      LLM_agreement = agreement \<rparr> # outputs)))"

definition run_outputs :: "Phi3Evaluator \<Rightarrow> line list \<Rightarrow> string \<Rightarrow> int \<Rightarrow> py_error + json_out list" where
  "run_outputs llm_evaluator data task_type batch_size =
     (case POOL task_type of
        None \<Rightarrow> Inl KeyError
      | Some td \<Rightarrow>
          outputs_loop td
            (zip_gen (call llm_evaluator (generate_prompts data task_type)
                        (max_output_tokens td) batch_size)
                     (generate_data data task_type)))"

section \<open>Sample inputs\<close>

text \<open>
  A record in the shape of \<^verbatim>\<open>SAMPLE_DATA\<close>, one that lacks its human judgment, and
  a stand-in pipeline that answers every chat with the same generations: four samples
  when sampling is on, one otherwise.
\<close>

definition sample_line :: line where
  "sample_line =
     [''qid'' \<mapsto> ''125705'',
      ''query_text'' \<mapsto> ''define preventive'',
      ''positive_text'' \<mapsto> ''Preventing, hindering, or acting as an obstacle to.'',
      ''retrieved_text'' \<mapsto> ''The Prevention Institute defines prevention.'',
      ''retrieved_doc_id'' \<mapsto> ''6464885'',
      ''human_judgment'' \<mapsto> ''Not Relevant'']"

definition broken_line :: line where
  "broken_line =
     [''qid'' \<mapsto> ''89786'',
      ''query_text'' \<mapsto> ''central city definition'',
      ''retrieved_text'' \<mapsto> ''Central City (DC Comics)'',
      ''retrieved_doc_id'' \<mapsto> ''213222'']"

definition sample_pipeline :: "pydict \<Rightarrow> message list \<Rightarrow> pipe_output" where
  "sample_pipeline args chat =
     (if args ''do_sample'' = Some (PyBool True)
      then Multiple [\<lparr>generated_text = ''Relevant''\<rparr>,
                     \<lparr>generated_text = ''I cannot say''\<rparr>,
                     \<lparr>generated_text = ''It is Relevant.''\<rparr>,
                     \<lparr>generated_text = ''Not Relevant''\<rparr>]
      else Single \<lparr>generated_text = ''Not Relevant''\<rparr>)"

text \<open>The prompt of the pointwise task for \<open>sample_line\<close>, written out.\<close>

definition sample_prompt :: string where
  \<open>sample_prompt =
     ''You are an expert in information retrieval and your task is to estimate the relevance of a retrieved document to a'' @
     '' query.'' @ NL @
     ''More specifically, you will be provided with two pieces of information:'' @ NL @
     ''- Query, which is the question we want to answer'' @ NL @
     ''- Retrieved Document, which is the document we want to evaluate.'' @ NL @ NL @
     ''Your task is to predict "Relevant" if the Retrieved Document contains the information required to provide an '' @
     ''answer to the Query, otherwise you should print "Not Relevant" '' @ NL @
     ''#####'' @ NL @
     ''Here are your inputs:'' @ NL @
     ''Query: define preventive'' @ NL @
     ''Retrieved Document: The Prevention Institute defines prevention.'' @ NL @
     ''#####'' @ NL @ NL @
     ''Take a step back and reflect carefully on how best to solve your task'' @ NL @
     ''You should provide your answer in the form of a boolean value: "Relevant" or "Not Relevant"'' @ NL\<close>

text \<open>
  An evaluator for the pointwise task that samples three times, one that decodes
  greedily, and pipeline outputs for one prompt: the sampled one, one with a tie
  between the two labels, one with a clear majority, and one in which nothing parses.
\<close>

definition sample_evaluator :: Phi3Evaluator where
  "sample_evaluator = init sample_pipeline [''Relevant'', ''Not Relevant''] 3 (1 / 2)"

definition greedy_evaluator :: Phi3Evaluator where
  "greedy_evaluator = init sample_pipeline [''Relevant'', ''Not Relevant''] 3 0"

definition sample_output :: pipe_output where
  "sample_output =
     sample_pipeline (gen_args sample_evaluator 4 2)
       [\<lparr>role = ''user'', content = ''define preventive''\<rparr>]"

definition tied_output :: pipe_output where
  "tied_output =
     Multiple [\<lparr>generated_text = ''Not Relevant''\<rparr>,
               \<lparr>generated_text = ''Relevant''\<rparr>,
               \<lparr>generated_text = ''no idea''\<rparr>,
               \<lparr>generated_text = ''Relevant!''\<rparr>,
               \<lparr>generated_text = ''Not Relevant.''\<rparr>]"



text \<open>
  An evaluator built without response types, and a pipeline whose model answers every
  chat with the word Unparsable.
\<close>

definition bare_evaluator :: Phi3Evaluator where
  "bare_evaluator = init sample_pipeline [] 3 (1 / 2)"

definition blunt_pipeline :: "pydict \<Rightarrow> message list \<Rightarrow> pipe_output" where
  "blunt_pipeline args chat = Single \<lparr>generated_text = ''Unparsable''\<rparr>"

section \<open>Decoding configuration\<close>

text \<open>
  C7. \<^verbatim>\<open>_get_generation_args\<close> returns the sampled configuration (sampling on,
  the configured temperature, \<open>iterations\<close> return sequences, twice as many beams)
  exactly when the temperature is greater than zero, and otherwise the greedy
  configuration: sampling off and one return sequence, whatever \<open>iterations\<close> is.
\<close>

theorem get_generation_args_cases:
  "(temperature self > 0 \<longrightarrow>
      get_generation_args self =
        [''return_full_text'' \<mapsto> PyBool False,
         ''temperature'' \<mapsto> PyFloat (temperature self),
         ''do_sample'' \<mapsto> PyBool True,
         ''num_return_sequences'' \<mapsto> PyInt (iterations self),
         ''num_beams'' \<mapsto> PyInt (2 * iterations self)])
   \<and> (\<not> temperature self > 0 \<longrightarrow>
      get_generation_args self =
        [''return_full_text'' \<mapsto> PyBool False,
         ''do_sample'' \<mapsto> PyBool False,
         ''num_return_sequences'' \<mapsto> PyInt 1])
   \<and> ((get_generation_args self ''do_sample'' = Some (PyBool True)) = (temperature self > 0))
   \<and> ((get_generation_args self ''num_return_sequences'' = Some (PyInt (iterations self))
        \<and> get_generation_args self ''num_beams'' = Some (PyInt (2 * iterations self))
        \<and> get_generation_args self ''temperature'' = Some (PyFloat (temperature self)))
       \<or> (get_generation_args self ''do_sample'' = Some (PyBool False)
        \<and> get_generation_args self ''num_return_sequences'' = Some (PyInt 1)))"
  by (simp add: get_generation_args_def)

theorem get_generation_args_cases_witness:
  "temperature sample_evaluator > 0
   \<and> get_generation_args sample_evaluator ''do_sample'' = Some (PyBool True)
   \<and> get_generation_args sample_evaluator ''num_return_sequences'' = Some (PyInt 3)
   \<and> get_generation_args sample_evaluator ''num_beams'' = Some (PyInt 6)
   \<and> \<not> temperature greedy_evaluator > 0
   \<and> get_generation_args greedy_evaluator ''do_sample'' = Some (PyBool False)
   \<and> get_generation_args greedy_evaluator ''num_return_sequences'' = Some (PyInt 1)"
proof -
  have s: "temperature sample_evaluator > 0" "iterations sample_evaluator = 3"
    by (simp_all add: sample_evaluator_def init_def)
  have g: "\<not> temperature greedy_evaluator > 0"
    by (simp add: greedy_evaluator_def init_def)
  show ?thesis
    using get_generation_args_cases [of sample_evaluator]
      get_generation_args_cases [of greedy_evaluator] s g
    by simp
qed

section \<open>Rounding to the nearest float\<close>










section \<open>Counting and the running maximum\<close>

lemma map_of_counter_incr:
  "map_of (counter_incr kcs x) = (map_of kcs)(x \<mapsto> (case map_of kcs x of None \<Rightarrow> 1 | Some c \<Rightarrow> c + 1))"
  by (induction kcs x rule: counter_incr.induct) (auto simp: fun_eq_iff)

lemma keys_counter_incr:
  "map fst (counter_incr kcs x) = (if x \<in> fst ` set kcs then map fst kcs else map fst kcs @ [x])"
  by (induction kcs x rule: counter_incr.induct) (auto simp: image_iff)

lemma Counter_snoc: "Counter (xs @ [x]) = counter_incr (Counter xs) x"
  by (simp add: Counter_def)

lemma Counter_Nil: "Counter [] = []"
  by (simp add: Counter_def)

lemma keys_Counter: "fst ` set (Counter xs) = set xs"
proof (induction xs rule: rev_induct)
  case Nil
  then show ?case by (simp add: Counter_Nil)
next
  case (snoc x xs)
  have "fst ` set (counter_incr (Counter xs) x) = set (map fst (counter_incr (Counter xs) x))"
    by simp
  also have "\<dots> = set (if x \<in> fst ` set (Counter xs) then map fst (Counter xs)
                          else map fst (Counter xs) @ [x])"
    by (simp only: keys_counter_incr)
  also have "\<dots> = insert x (set xs)"
    using snoc by auto
  finally show ?case by (simp add: Counter_snoc)
qed

lemma distinct_keys_Counter: "distinct (map fst (Counter xs))"
proof (induction xs rule: rev_induct)
  case Nil
  then show ?case by (simp add: Counter_Nil)
next
  case (snoc x xs)
  then show ?case
    by (auto simp: Counter_snoc keys_counter_incr)
qed

lemma map_of_Counter:
  "map_of (Counter xs) k = (if k \<in> set xs then Some (count_list xs k) else None)"
proof (induction xs rule: rev_induct)
  case Nil
  then show ?case by (simp add: Counter_Nil)
next
  case (snoc x xs)
  then show ?case
    by (auto simp: Counter_snoc map_of_counter_incr)
qed

lemma Counter_count:
  assumes "(k, c) \<in> set (Counter xs)"
  shows "c = count_list xs k"
proof -
  have "map_of (Counter xs) k = Some c"
    by (rule map_of_is_SomeI [OF distinct_keys_Counter assms])
  then show ?thesis
    by (simp add: map_of_Counter split: if_splits)
qed

lemma keys_order:
  "map fst (Counter xs) = A @ l # B \<Longrightarrow>
     \<exists>pre post. xs = pre @ l # post \<and> l \<notin> set pre \<and> set pre \<subseteq> set A"
proof (induction xs arbitrary: B rule: rev_induct)
  case Nil
  then show ?case by (simp add: Counter_Nil)
next
  case (snoc x xs)
  show ?case
  proof (cases "x \<in> set xs")
    case True
    then have "map fst (Counter xs) = A @ l # B"
      using snoc.prems by (simp add: Counter_snoc keys_counter_incr keys_Counter)
    then obtain pre post where "xs = pre @ l # post" "l \<notin> set pre" "set pre \<subseteq> set A"
      using snoc.IH by blast
    then have "xs @ [x] = pre @ l # (post @ [x]) \<and> l \<notin> set pre \<and> set pre \<subseteq> set A"
      by simp
    then show ?thesis by blast
  next
    case False
    then have eq: "map fst (Counter xs) @ [x] = A @ l # B"
      using snoc.prems by (simp add: Counter_snoc keys_counter_incr keys_Counter)
    show ?thesis
    proof (cases B rule: rev_cases)
      case Nil
      then have lx: "l = x" and A: "A = map fst (Counter xs)"
        using eq by auto
      have "set A = set xs"
        unfolding A using keys_Counter [of xs] by simp
      then have "xs @ [x] = xs @ l # [] \<and> l \<notin> set xs \<and> set xs \<subseteq> set A"
        using False lx by simp
      then show ?thesis by blast
    next
      case (snoc B' y)
      then have "map fst (Counter xs) = A @ l # B'"
        using eq by auto
      then obtain pre post where "xs = pre @ l # post" "l \<notin> set pre" "set pre \<subseteq> set A"
        using snoc.IH by blast
      then have "xs @ [x] = pre @ l # (post @ [x]) \<and> l \<notin> set pre \<and> set pre \<subseteq> set A"
        by simp
      then show ?thesis by blast
    qed
  qed
qed

lemma max_by_count_split:
  "\<exists>A B. best # its = A @ max_by_count best its # B
     \<and> (\<forall>a \<in> set A. snd a < snd (max_by_count best its))
     \<and> (\<forall>b \<in> set B. snd b \<le> snd (max_by_count best its))"
proof (induction its arbitrary: best)
  case Nil
  show ?case
    by (rule exI [of _ "[]"], rule exI [of _ "[]"]) simp
next
  case (Cons it its)
  show ?case
  proof (cases "snd best < snd it")
    case True
    let ?r = "max_by_count it its"
    have r: "max_by_count best (it # its) = ?r"
      using True by simp
    obtain A B where s: "it # its = A @ ?r # B" "\<forall>a \<in> set A. snd a < snd ?r"
        "\<forall>b \<in> set B. snd b \<le> snd ?r"
      using Cons.IH [of it] by blast
    have "snd it \<le> snd ?r"
      using s by (cases A) (auto intro: less_imp_le)
    then have "best # it # its = (best # A) @ ?r # B"
        "\<forall>a \<in> set (best # A). snd a < snd ?r"
      using s True by auto
    then show ?thesis
      unfolding r using s(3) by blast
  next
    case False
    let ?r = "max_by_count best its"
    have r: "max_by_count best (it # its) = ?r"
      using False by simp
    obtain A B where s: "best # its = A @ ?r # B" "\<forall>a \<in> set A. snd a < snd ?r"
        "\<forall>b \<in> set B. snd b \<le> snd ?r"
      using Cons.IH [of best] by blast
    show ?thesis
    proof (cases A)
      case Nil
      then have "best # it # its = [] @ ?r # (it # B)"
          "\<forall>a \<in> set []. snd a < snd ?r"
          "\<forall>b \<in> set (it # B). snd b \<le> snd ?r"
        using s False by auto
      then show ?thesis
        unfolding r by blast
    next
      case (Cons a A')
      then have "best # it # its = (best # it # A') @ ?r # B"
          "\<forall>a \<in> set (best # it # A'). snd a < snd ?r"
        using s False by auto
      then show ?thesis
        unfolding r using s(3) by blast
    qed
  qed
qed


lemma Counter_nonempty: "xs \<noteq> [] \<Longrightarrow> Counter xs \<noteq> []"
  using keys_Counter [of xs] by auto

lemma Counter_member: "k \<in> set xs \<Longrightarrow> (k, count_list xs k) \<in> set (Counter xs)"
  by (rule map_of_SomeD) (simp add: map_of_Counter)

lemma py_truediv_lengths:
  "clean \<noteq> [] \<Longrightarrow>
     py_truediv (int c) (int (length clean)) =
       Inr (nearest_double (of_int (int c) / of_int (int (length clean))))"
  by (simp add: py_truediv_def)

lemma judge_winner:
  assumes "clean_outputs self output \<noteq> []"
  shows "\<exists>l c A B. Counter (clean_outputs self output) = A @ (l, c) # B
           \<and> (\<forall>a \<in> set A. snd a < c) \<and> (\<forall>b \<in> set B. snd b \<le> c)
           \<and> (\<exists>q. py_truediv (int c) (int (length (clean_outputs self output))) = Inr q
                  \<and> judge self output = Inr (llm_outputs output, l, py_round q 2))"
proof -
  let ?clean = "clean_outputs self output"
  obtain it its where items: "Counter ?clean = it # its"
    using Counter_nonempty [OF assms] by (cases "Counter ?clean") auto
  let ?r = "max_by_count it its"
  obtain A B where s: "it # its = A @ ?r # B" "\<forall>a \<in> set A. snd a < snd ?r"
      "\<forall>b \<in> set B. snd b \<le> snd ?r"
    using max_by_count_split [of it its] by blast
  let ?q = "nearest_double (of_int (int (snd ?r)) / of_int (int (length ?clean)))"
  have div: "py_truediv (int (snd ?r)) (int (length ?clean)) = Inr ?q"
    using assms by (rule py_truediv_lengths)
  have "judge self output = Inr (llm_outputs output, fst ?r, py_round ?q 2)"
    using assms by (simp add: judge_def Let_def items most_common_1_def div)
  moreover have "Counter ?clean = A @ (fst ?r, snd ?r) # B"
    using items s(1) by simp
  ultimately show ?thesis
    using s(2,3) div by blast
qed

section \<open>Majority voting\<close>




text \<open>
  C9. When labels are tied for the maximal count, the label yielded is the one seen
  first: the yielded label has a maximal count, and no label with the same count occurs
  among the parsed outputs before its first occurrence.
\<close>

theorem tie_break_first_seen:
  assumes "clean_outputs self output \<noteq> []"
  shows "\<exists>label agreement pre post.
           judge self output = Inr (llm_outputs output, label, agreement)
         \<and> clean_outputs self output = pre @ label # post
         \<and> label \<notin> set pre
         \<and> (\<forall>l. count_list (clean_outputs self output) l
                  \<le> count_list (clean_outputs self output) label)
         \<and> (\<forall>l. count_list (clean_outputs self output) l
                    = count_list (clean_outputs self output) label \<longrightarrow> l \<notin> set pre)"
proof -
  let ?clean = "clean_outputs self output"
  obtain l c A B q where w: "Counter ?clean = A @ (l, c) # B"
      "\<forall>a \<in> set A. snd a < c" "\<forall>b \<in> set B. snd b \<le> c"
      "py_truediv (int c) (int (length ?clean)) = Inr q"
      "judge self output = Inr (llm_outputs output, l, py_round q 2)"
    using judge_winner [OF assms] by blast
  have "(l, c) \<in> set (Counter ?clean)"
    using w(1) by simp
  then have c: "c = count_list ?clean l"
    by (rule Counter_count)
  have "map fst (Counter ?clean) = map fst A @ l # map fst B"
    using w(1) by simp
  then have "\<exists>pre post. ?clean = pre @ l # post \<and> l \<notin> set pre \<and> set pre \<subseteq> set (map fst A)"
    by (rule keys_order)
  then obtain pre post where p: "?clean = pre @ l # post" "l \<notin> set pre"
      "set pre \<subseteq> set (map fst A)"
    by blast
  have le: "count_list ?clean k \<le> c" for k
  proof (cases "k \<in> set ?clean")
    case True
    then have "(k, count_list ?clean k) \<in> set (Counter ?clean)"
      by (rule Counter_member)
    then show ?thesis
      using w(1,2,3) by (auto intro: less_imp_le)
  next
    case False
    then show ?thesis by simp
  qed
  have lt: "count_list ?clean k < c" if kp: "k \<in> set pre" for k
  proof -
    have "k \<in> fst ` set A"
      using kp p(3) by auto
    then obtain n where n: "(k, n) \<in> set A"
      by force
    then have "(k, n) \<in> set (Counter ?clean)"
      using w(1) by simp
    then have "n = count_list ?clean k"
      by (rule Counter_count)
    then show ?thesis
      using n w(2) by auto
  qed
  have "\<forall>k. count_list ?clean k = count_list ?clean l \<longrightarrow> k \<notin> set pre"
    using lt c by force
  then show ?thesis
    using w(5) p(1,2) le c by blast
qed

theorem tie_break_first_seen_witness:
  "clean_outputs sample_evaluator tied_output
     = [''Not Relevant'', ''Relevant'', ''Relevant'', ''Not Relevant'']
   \<and> (\<exists>agreement. judge sample_evaluator tied_output
         = Inr (llm_outputs tied_output, ''Not Relevant'', agreement))"
proof -
  have c: "clean_outputs sample_evaluator tied_output
      = [''Not Relevant'', ''Relevant'', ''Relevant'', ''Not Relevant'']"
    by code_simp
  then have h: "clean_outputs sample_evaluator tied_output \<noteq> []"
    by simp
  obtain label agreement pre post where
    w: "judge sample_evaluator tied_output = Inr (llm_outputs tied_output, label, agreement)"
      "clean_outputs sample_evaluator tied_output = pre @ label # post"
      "\<forall>l. count_list (clean_outputs sample_evaluator tied_output) l
            = count_list (clean_outputs sample_evaluator tied_output) label \<longrightarrow> l \<notin> set pre"
      "\<forall>l. count_list (clean_outputs sample_evaluator tied_output) l
            \<le> count_list (clean_outputs sample_evaluator tied_output) label"
    using tie_break_first_seen [OF h] by blast
  have "label = ''Not Relevant''"
  proof (cases pre)
    case Nil
    then show ?thesis using w(2) c by simp
  next
    case (Cons x pre')
    then have x: "x = ''Not Relevant''"
      using w(2) c by simp
    have "label \<in> set [''Not Relevant'', ''Relevant'', ''Relevant'', ''Not Relevant'']"
      using w(2) c by (metis in_set_conv_decomp)
    then have "count_list (clean_outputs sample_evaluator tied_output) x
        = count_list (clean_outputs sample_evaluator tied_output) label"
      using x c by auto
    then have "x \<notin> set pre"
      using w(3) by blast
    then show ?thesis
      using Cons by simp
  qed
  then show ?thesis
    using c w(1) by blast
qed

section \<open>The sentinel\<close>



section \<open>Two votes of three\<close>

lemma Counter_example: "Counter [''Relevant'', ''Relevant'', ''Not Relevant''] = [(''Relevant'', 2), (''Not Relevant'', 1)]"
  by (simp add: Counter_def)

lemma two_thirds: "py_truediv 2 3 = Inr (6004799503160661 / 9007199254740992)"
  by code_simp

lemma round_two_thirds: "py_round (6004799503160661 / 9007199254740992) 2 = nearest_double (67 / 100)"
  by code_simp

text \<open>
  C6. When the parsed outputs of a batch element are Relevant, Relevant, Not Relevant,
  the label yielded is Relevant and the agreement is the float written \<open>0.67\<close>, the
  one nearest to \<open>67/100\<close>.
\<close>

theorem two_of_three_relevant:
  assumes "clean_outputs self output = [''Relevant'', ''Relevant'', ''Not Relevant'']"
  shows "judge self output = Inr (llm_outputs output, ''Relevant'', nearest_double (67 / 100))"
  by (simp add: judge_def assms Counter_example most_common_1_def two_thirds round_two_thirds)

theorem two_of_three_relevant_witness:
  "clean_outputs sample_evaluator sample_output = [''Relevant'', ''Relevant'', ''Not Relevant'']
   \<and> judge sample_evaluator sample_output
       = Inr ([''Relevant'', ''I cannot say'', ''It is Relevant.'', ''Not Relevant''],
              ''Relevant'', nearest_double (67 / 100))"
proof -
  have h: "clean_outputs sample_evaluator sample_output
      = [''Relevant'', ''Relevant'', ''Not Relevant'']"
    by code_simp
  have "llm_outputs sample_output
      = [''Relevant'', ''I cannot say'', ''It is Relevant.'', ''Not Relevant'']"
    by code_simp
  then show ?thesis
    using h two_of_three_relevant [OF h] by simp
qed

section \<open>Searching: the alternatives and the leftmost match\<close>

text \<open>
  What \<open>re_search\<close> computes on its fragment: for plain response types the
  alternatives of the pattern are the response types, and the search finds a match
  exactly when a part of the text equals one of them up to the case of ASCII letters.
\<close>

lemma split_bar_no_bar: "CHR ''|'' \<notin> set x \<Longrightarrow> split_bar x = [x]"
  by (induction x) auto

lemma split_bar_at_bar:
  "CHR ''|'' \<notin> set x \<Longrightarrow> split_bar (x @ CHR ''|'' # rest) = x # split_bar rest"
  by (induction x) auto

lemma split_bar_join:
  "rts \<noteq> [] \<Longrightarrow> \<forall>rt \<in> set rts. CHR ''|'' \<notin> set rt \<Longrightarrow> split_bar (join ''|'' rts) = rts"
  by (induction "''|''" rts rule: join.induct) (simp_all add: split_bar_no_bar split_bar_at_bar)

lemma plain_no_bar: "plain rt \<Longrightarrow> CHR ''|'' \<notin> set rt"
  by (auto simp: plain_def)

lemma alternatives_pattern: "alternatives (''('' @ body @ '')'') = split_bar body"
  by (simp add: alternatives_def butlast_append)

lemma alternatives_init:
  assumes "rts \<noteq> []" "\<forall>rt \<in> set rts. plain rt"
  shows "alternatives (''('' @ join ''|'' rts @ '')'') = rts"
  using assms by (simp only: alternatives_pattern) (simp add: split_bar_join plain_no_bar)

lemma match_here_None: "(match_here alts s = None) = (\<forall>a \<in> set alts. \<not> prefix_ci a s)"
  by (induction alts) auto

lemma match_here_Some:
  "match_here alts s = Some m \<Longrightarrow> \<exists>a \<in> set alts. prefix_ci a s \<and> m = take (length a) s"
  by (induction alts) (auto split: if_splits)

lemma search_from_None:
  "(search_from alts s = None) = (\<forall>k \<le> length s. \<forall>a \<in> set alts. \<not> prefix_ci a (drop k s))"
proof (induction s)
  case Nil
  then show ?case by (simp add: match_here_None)
next
  case (Cons c cs)
  have "(\<forall>k \<le> length (c # cs). \<forall>a \<in> set alts. \<not> prefix_ci a (drop k (c # cs)))
      = ((\<forall>a \<in> set alts. \<not> prefix_ci a (c # cs))
         \<and> (\<forall>k \<le> length cs. \<forall>a \<in> set alts. \<not> prefix_ci a (drop k cs)))"
    (is "?L = ?R")
  proof
    assume l: ?L
    have "\<forall>a \<in> set alts. \<not> prefix_ci a (drop 0 (c # cs))"
      using l by blast
    moreover have "\<forall>a \<in> set alts. \<not> prefix_ci a (drop k cs)" if "k \<le> length cs" for k
      using l [rule_format, of "Suc k"] that by simp
    ultimately show ?R by simp
  next
    assume r: ?R
    show ?L
    proof (intro allI impI)
      fix k assume "k \<le> length (c # cs)"
      then show "\<forall>a \<in> set alts. \<not> prefix_ci a (drop k (c # cs))"
        using r by (cases k) auto
    qed
  qed
  note LR = this
  have step: "(search_from alts (c # cs) = None)
      = (match_here alts (c # cs) = None \<and> search_from alts cs = None)"
    by (auto split: option.splits)
  show ?case
    by (simp only: step match_here_None Cons.IH LR)
qed

lemma search_from_Some:
  "search_from alts s = Some m \<Longrightarrow>
     \<exists>k \<le> length s. \<exists>a \<in> set alts. prefix_ci a (drop k s) \<and> m = take (length a) (drop k s)"
proof (induction s)
  case Nil
  then show ?case
    using match_here_Some [of alts "[]" m] by simp
next
  case (Cons c cs)
  show ?case
  proof (cases "match_here alts (c # cs)")
    case None
    then have "search_from alts cs = Some m"
      using Cons.prems by simp
    then obtain k a where "k \<le> length cs" "a \<in> set alts" "prefix_ci a (drop k cs)"
        "m = take (length a) (drop k cs)"
      using Cons.IH by blast
    then have "Suc k \<le> length (c # cs) \<and> a \<in> set alts \<and> prefix_ci a (drop (Suc k) (c # cs))
        \<and> m = take (length a) (drop (Suc k) (c # cs))"
      by simp
    then show ?thesis by blast
  next
    case (Some m')
    then have "m' = m"
      using Cons.prems by simp
    then obtain a where "a \<in> set alts" "prefix_ci a (c # cs)" "m = take (length a) (c # cs)"
      using match_here_Some [of alts "c # cs" m'] Some by blast
    then have "0 \<le> length (c # cs) \<and> a \<in> set alts \<and> prefix_ci a (drop 0 (c # cs))
        \<and> m = take (length a) (drop 0 (c # cs))"
      by simp
    then show ?thesis by blast
  qed
qed

lemma prefix_ci_occurs:
  assumes "prefix_ci a (drop k s)"
  shows "s = take k s @ take (length a) (drop k s) @ drop (length a) (drop k s)"
    and "map lower (take (length a) (drop k s)) = map lower a"
proof -
  show "s = take k s @ take (length a) (drop k s) @ drop (length a) (drop k s)"
    by (simp only: append_take_drop_id)
  show "map lower (take (length a) (drop k s)) = map lower a"
    using assms by (simp add: prefix_ci_def)
qed

lemma occurs_prefix_ci:
  assumes "s = pre @ m @ post" "map lower m = map lower a"
  shows "prefix_ci a (drop (length pre) s)" and "length pre \<le> length s"
proof -
  have "length m = length a"
    using assms(2) by (metis length_map)
  then show "prefix_ci a (drop (length pre) s)"
    using assms by (simp add: prefix_ci_def)
  show "length pre \<le> length s"
    using assms(1) by simp
qed

lemma search_from_None_occurs:
  "(search_from alts s = None)
     = (\<not> (\<exists>pre m post a. s = pre @ m @ post \<and> a \<in> set alts \<and> map lower m = map lower a))"
proof
  assume n: "search_from alts s = None"
  show "\<not> (\<exists>pre m post a. s = pre @ m @ post \<and> a \<in> set alts \<and> map lower m = map lower a)"
  proof
    assume "\<exists>pre m post a. s = pre @ m @ post \<and> a \<in> set alts \<and> map lower m = map lower a"
    then obtain pre m post a where o: "s = pre @ m @ post" "a \<in> set alts"
        "map lower m = map lower a"
      by blast
    have "prefix_ci a (drop (length pre) s)" "length pre \<le> length s"
      using occurs_prefix_ci [OF o(1) o(3)] by simp_all
    then show False
      using n o(2) by (simp add: search_from_None)
  qed
next
  assume no: "\<not> (\<exists>pre m post a. s = pre @ m @ post \<and> a \<in> set alts \<and> map lower m = map lower a)"
  show "search_from alts s = None"
  proof (rule ccontr)
    assume "search_from alts s \<noteq> None"
    then obtain m where "search_from alts s = Some m"
      by auto
    then obtain k a where ka: "a \<in> set alts" "prefix_ci a (drop k s)"
        "m = take (length a) (drop k s)"
      using search_from_Some by blast
    have "s = take k s @ m @ drop (length a) (drop k s)" "map lower m = map lower a"
      using prefix_ci_occurs [OF ka(2)] ka(3) by simp_all
    then show False
      using no ka(1) by blast
  qed
qed

lemma search_from_Some_occurs:
  assumes "search_from alts s = Some m"
  shows "\<exists>pre post a. s = pre @ m @ post \<and> a \<in> set alts \<and> map lower m = map lower a"
proof -
  obtain k a where ka: "a \<in> set alts" "prefix_ci a (drop k s)"
      "m = take (length a) (drop k s)"
    using search_from_Some [OF assms] by blast
  have "s = take k s @ m @ drop (length a) (drop k s)" "map lower m = map lower a"
    using prefix_ci_occurs [OF ka(2)] ka(3) by simp_all
  then show ?thesis
    using ka(1) by blast
qed

lemma lower_Unparsable: "map lower ''Unparsable'' = ''unparsable''"
  by code_simp

section \<open>The label set\<close>

text \<open>
  C2. The result of \<^verbatim>\<open>_postprocess_output\<close> is meant to be one of the response
  types or \<open>Unparsable\<close>. The search ignores case and the matched text is returned as
  it stands in the output: with the response types Relevant and Not Relevant the output
  \<open>relevant\<close> comes back unchanged, and it is neither a response type nor the
  sentinel.
\<close>

theorem lowercase_answer_not_a_label:
  "regex_str greedy_evaluator = Some ''(Relevant|Not Relevant)''
   \<and> postprocess_output greedy_evaluator ''relevant'' = ''relevant''
   \<and> ''relevant'' \<notin> set [''Relevant'', ''Not Relevant'']
   \<and> ''relevant'' \<noteq> ''Unparsable''"
  by code_simp

text \<open>
  The votes for one label in two spellings are counted apart: four of seven samples say
  relevant, and Not Relevant wins with three.
\<close>

lemma case_variants_split_the_vote:
  "judge sample_evaluator
     (Multiple [\<lparr>generated_text = ''relevant''\<rparr>, \<lparr>generated_text = ''Relevant''\<rparr>,
                \<lparr>generated_text = ''relevant''\<rparr>, \<lparr>generated_text = ''Relevant''\<rparr>,
                \<lparr>generated_text = ''Not Relevant''\<rparr>, \<lparr>generated_text = ''Not Relevant''\<rparr>,
                \<lparr>generated_text = ''Not Relevant''\<rparr>])
   = Inr ([''relevant'', ''Relevant'', ''relevant'', ''Relevant'',
           ''Not Relevant'', ''Not Relevant'', ''Not Relevant''],
          ''Not Relevant'', nearest_double (43 / 100))"
  by code_simp

section \<open>Unmatched and matched outputs\<close>

text \<open>
  C3, as stated, fails where the matched text is itself the word \<open>Unparsable\<close>:
  with that word as the response type a match is found and the value returned is
  \<open>Unparsable\<close>.
\<close>

theorem matched_text_is_the_sentinel:
  "regex_str (init sample_pipeline [''Unparsable''] 1 0) = Some ''(Unparsable)''
   \<and> re_search ''(Unparsable)'' ''Unparsable'' = Some ''Unparsable''
   \<and> postprocess_output (init sample_pipeline [''Unparsable''] 1 0) ''Unparsable'' = ''Unparsable''"
  by code_simp

text \<open>
  C3. For an evaluator built from a non-empty list of response types the pattern is the
  parenthesised alternation of the response types, and for every search function put for
  \<^verbatim>\<open>re.search\<close> with \<^verbatim>\<open>re.IGNORECASE\<close>: when the search finds no match,
  \<^verbatim>\<open>_postprocess_output\<close> returns exactly \<open>Unparsable\<close>; when it finds a match,
  the matched text is returned; so the value returned after a match is \<open>Unparsable\<close>
  only when the matched text is itself that word.
\<close>

theorem postprocess_output_match:
  assumes "rts \<noteq> []"
  shows "regex_str (init pipe rts its temp) = Some (''('' @ join ''|'' rts @ '')'')
    \<and> (search (''('' @ join ''|'' rts @ '')'') llm_out = None
         \<longrightarrow> postprocess_with search (init pipe rts its temp) llm_out = ''Unparsable'')
    \<and> (\<forall>m. search (''('' @ join ''|'' rts @ '')'') llm_out = Some m
         \<longrightarrow> postprocess_with search (init pipe rts its temp) llm_out = m)
    \<and> ((postprocess_with search (init pipe rts its temp) llm_out = ''Unparsable'')
         = (search (''('' @ join ''|'' rts @ '')'') llm_out = None
            \<or> search (''('' @ join ''|'' rts @ '')'') llm_out = Some ''Unparsable''))"
proof -
  let ?r = "''('' @ join ''|'' rts @ '')''"
  have reg: "regex_str (init pipe rts its temp) = Some ?r"
    using assms by (simp add: init_def)
  have post: "postprocess_with search (init pipe rts its temp) llm_out
      = (case search ?r llm_out of Some m \<Rightarrow> m | None \<Rightarrow> ''Unparsable'')"
    by (simp only: postprocess_with_def reg option.case) simp
  show ?thesis
    unfolding post using reg by (cases "search ?r llm_out") auto
qed

theorem postprocess_output_match_witness:
  "[''Relevant'', ''Not Relevant''] \<noteq> []
   \<and> regex_str greedy_evaluator = Some ''(Relevant|Not Relevant)''
   \<and> re_search ''(Relevant|Not Relevant)'' ''It is not relevant'' = Some ''not relevant''
   \<and> postprocess_output greedy_evaluator ''It is not relevant'' = ''not relevant''
   \<and> re_search ''(Relevant|Not Relevant)'' ''no idea'' = None
   \<and> postprocess_output greedy_evaluator ''no idea'' = ''Unparsable''"
proof -
  let ?rts = "[''Relevant'', ''Not Relevant'']"
  have h: "?rts \<noteq> []"
    by simp
  have r: "''('' @ join ''|'' ?rts @ '')'' = ''(Relevant|Not Relevant)''"
    by simp
  have m: "re_search ''(Relevant|Not Relevant)'' ''It is not relevant'' = Some ''not relevant''"
    by code_simp
  have n: "re_search ''(Relevant|Not Relevant)'' ''no idea'' = None"
    by code_simp
  have g: "greedy_evaluator = init sample_pipeline ?rts 3 0"
    by (simp add: greedy_evaluator_def)
  have a: "regex_str greedy_evaluator = Some ''(Relevant|Not Relevant)''"
    "postprocess_output greedy_evaluator ''It is not relevant'' = ''not relevant''"
    using postprocess_output_match [OF h, of sample_pipeline 3 0 re_search "''It is not relevant''"] m
    unfolding g r postprocess_output_def by simp_all
  have b: "postprocess_output greedy_evaluator ''no idea'' = ''Unparsable''"
    using postprocess_output_match [OF h, of sample_pipeline 3 0 re_search "''no idea''"] n
    unfolding g r postprocess_output_def by simp
  show ?thesis
    using a b m n by simp
qed

section \<open>No response types\<close>

lemma judge_label_clean:
  assumes "clean_outputs self output \<noteq> []"
  shows "\<exists>l a. judge self output = Inr (llm_outputs output, l, a)
           \<and> l \<in> set (clean_outputs self output)"
proof -
  obtain l c A B q where w: "Counter (clean_outputs self output) = A @ (l, c) # B"
      "judge self output = Inr (llm_outputs output, l, py_round q 2)"
    using judge_winner [OF assms] by blast
  have "l \<in> fst ` set (Counter (clean_outputs self output))"
    unfolding w(1) by force
  then have "l \<in> set (clean_outputs self output)"
    by (simp add: keys_Counter)
  then show ?thesis
    using w(2) by blast
qed

text \<open>
  C10, as stated, fails for a model that answers with the word \<open>Unparsable\<close>: the
  output is passed through unchanged, dropped from the clean outputs, and
  \<^verbatim>\<open>__call__\<close> yields the sentinel.
\<close>

theorem raw_unparsable_sentinel:
  "regex_str (init blunt_pipeline [] 1 0) = None
   \<and> postprocess_output (init blunt_pipeline [] 1 0) ''Unparsable'' = ''Unparsable''
   \<and> call (init blunt_pipeline [] 1 0) (gen_of_list [''Is the document relevant?'']) 4 2
       = Yield ([''Unparsable''], ''Unparsable'', - 1) Done"
  by code_simp

text \<open>
  C10. An evaluator built from an empty list of response types has no pattern and
  \<^verbatim>\<open>_postprocess_output\<close> returns every output unchanged. The clean outputs are the
  raw outputs other than the word \<open>Unparsable\<close>; the sentinel is yielded exactly when
  every raw output is that word (or there is none), and otherwise the label voted is one
  of the raw outputs.
\<close>

theorem empty_response_types:
  "regex_str (init pipe [] its temp) = None
   \<and> postprocess_output (init pipe [] its temp) llm_out = llm_out
   \<and> clean_outputs (init pipe [] its temp) output
       = filter (\<lambda>out. out \<noteq> ''Unparsable'') (llm_outputs output)
   \<and> ((\<exists>raw. judge (init pipe [] its temp) output = Inr (raw, ''Unparsable'', - 1))
        = (\<forall>out \<in> set (llm_outputs output). out = ''Unparsable''))
   \<and> ((\<exists>out \<in> set (llm_outputs output). out \<noteq> ''Unparsable'')
        \<longrightarrow> (\<exists>label agreement.
               judge (init pipe [] its temp) output = Inr (llm_outputs output, label, agreement)
               \<and> label \<in> set (llm_outputs output) \<and> label \<noteq> ''Unparsable''))"
proof -
  let ?ev = "init pipe [] its temp"
  have reg: "regex_str ?ev = None"
    by (simp add: init_def)
  have post: "postprocess_output ?ev s = s" for s
    by (simp add: postprocess_output_def postprocess_with_def reg)
  have clean: "clean_outputs ?ev output = filter (\<lambda>out. out \<noteq> ''Unparsable'') (llm_outputs output)"
  proof -
    have "postprocess_output ?ev = id"
      by (rule ext) (simp add: post)
    then show ?thesis
      by (simp add: clean_outputs_def parsed_outputs_def)
  qed
  have voted: "\<exists>label agreement.
      judge ?ev output = Inr (llm_outputs output, label, agreement)
      \<and> label \<in> set (llm_outputs output) \<and> label \<noteq> ''Unparsable''"
    if "clean_outputs ?ev output \<noteq> []"
    using judge_label_clean [OF that] unfolding clean by auto
  have iff: "(\<exists>raw. judge ?ev output = Inr (raw, ''Unparsable'', - 1))
      = (\<forall>out \<in> set (llm_outputs output). out = ''Unparsable'')"
  proof (cases "clean_outputs ?ev output = []")
    case True
    then have "judge ?ev output = Inr (llm_outputs output, ''Unparsable'', - 1)"
      by (simp add: judge_def)
    moreover have "\<forall>out \<in> set (llm_outputs output). out = ''Unparsable''"
      using True unfolding clean by (simp add: filter_empty_conv)
    ultimately show ?thesis by simp
  next
    case False
    then have "\<not> (\<forall>out \<in> set (llm_outputs output). out = ''Unparsable'')"
      unfolding clean by (simp add: filter_empty_conv)
    moreover have "\<not> (\<exists>raw. judge ?ev output = Inr (raw, ''Unparsable'', - 1))"
      using voted [OF False] by auto
    ultimately show ?thesis by simp
  qed
  have "(\<exists>out \<in> set (llm_outputs output). out \<noteq> ''Unparsable'')
      \<longrightarrow> clean_outputs ?ev output \<noteq> []"
    unfolding clean by (simp add: filter_empty_conv)
  then show ?thesis
    using reg post clean iff voted by blast
qed

theorem empty_response_types_witness:
  "postprocess_output bare_evaluator ''It is Relevant.'' = ''It is Relevant.''
   \<and> (\<exists>out \<in> set (llm_outputs sample_output). out \<noteq> ''Unparsable'')
   \<and> \<not> (\<exists>raw. judge bare_evaluator sample_output = Inr (raw, ''Unparsable'', - 1))"
proof -
  have h: "\<exists>out \<in> set (llm_outputs sample_output). out \<noteq> ''Unparsable''"
    by code_simp
  show ?thesis
    using h empty_response_types [of sample_pipeline 3 "1 / 2" "''It is Relevant.''" sample_output]
    unfolding bare_evaluator_def by blast
qed

section \<open>Formatting the prompt templates\<close>

text \<open>
  A template is a concatenation of short literals, each of which formats on its own; the
  formatting of the whole is put together from theirs.
\<close>

lemma isl_emit: "isl (emit v r) = isl r"
  by (cases r) (simp_all add: emit_def)

lemma emit_emit: "emit a (emit b r) = emit (a @ b) r"
  by (cases r) (simp_all add: emit_def)

lemma emit_Inr_iff: "(emit a r = Inr out) = (\<exists>t. r = Inr t \<and> out = a @ t)"
  by (cases r) (auto simp: emit_def)

lemma fmt_scan_append:
  "fmt_scan kw st xs = Inr out \<Longrightarrow> fmt_scan kw st (xs @ ys) = emit out (fmt_scan kw Text ys)"
proof (induction xs arbitrary: st out)
  case Nil
  then show ?case
    by (cases st) (simp_all add: emit_def split: sum.splits)
next
  case (Cons c cs)
  show ?case
  proof (cases st)
    case Text
    then show ?thesis
      using Cons by (auto simp: emit_Inr_iff emit_emit split: if_splits)
  next
    case Opened
    then show ?thesis
      using Cons by (auto simp: emit_Inr_iff emit_emit split: if_splits sum.splits)
  next
    case Closed
    then show ?thesis
      using Cons by (auto simp: emit_Inr_iff emit_emit split: if_splits)
  next
    case (Field f)
    then show ?thesis
      using Cons by (auto simp: emit_Inr_iff emit_emit split: if_splits sum.splits)
  qed
qed

lemma fmt_scan_segment:
  "\<not> isl (fmt_scan kw Text xs) \<Longrightarrow>
     isl (fmt_scan kw Text (xs @ ys)) = isl (fmt_scan kw Text ys)"
proof -
  assume "\<not> isl (fmt_scan kw Text xs)"
  then obtain out where "fmt_scan kw Text xs = Inr out"
    by (cases "fmt_scan kw Text xs") auto
  then show ?thesis
    by (simp add: fmt_scan_append isl_emit)
qed

lemma snoc_Nil: "[] @ [c] = [c]"
  by simp

lemma snoc_Cons: "(x # xs) @ [c] = x # (xs @ [c])"
  by simp

lemma format_pointwise:
  assumes "kw ''query_text'' = Some q" "kw ''retrieved_text'' = Some d"
  shows "\<not> isl (format_str QA_POINTWISE_RELEVANCE_PROMPT_TEMPLATE kw)"
  using assms
  by (simp add: format_str_def QA_POINTWISE_RELEVANCE_PROMPT_TEMPLATE_def fmt_scan_segment
        isl_emit get_field_def snoc_Nil snoc_Cons del: append.simps)

lemma format_pairwise:
  assumes "kw ''query_text'' = Some q" "kw ''positive_text'' = Some p"
    "kw ''retrieved_text'' = Some d"
  shows "\<not> isl (format_str QA_PAIRWISE_RELEVANCE_PROMPT_TEMPLATE kw)"
  using assms
  by (simp add: format_str_def QA_PAIRWISE_RELEVANCE_PROMPT_TEMPLATE_def fmt_scan_segment
        isl_emit get_field_def snoc_Nil snoc_Cons del: append.simps)

lemma format_chain_of_thought:
  assumes "kw ''query_text'' = Some q" "kw ''retrieved_text'' = Some d"
  shows "\<not> isl (format_str CHAIN_OF_THOUGHT_PROMPT_TEMPLATE kw)"
  using assms
  by (simp add: format_str_def CHAIN_OF_THOUGHT_PROMPT_TEMPLATE_def fmt_scan_segment isl_emit
        get_field_def snoc_Nil snoc_Cons del: append.simps)

lemma has_keys_append: "has_keys (ks @ ks') line = (has_keys ks line \<and> has_keys ks' line)"
  by (simp add: has_keys_def)

lemma has_keys_restrict:
  "has_keys ks line \<Longrightarrow> k \<in> set ks \<Longrightarrow> \<exists>v. (line |` set ks) k = Some v"
  by (auto simp: has_keys_def list_all_iff restrict_map_def)

lemma POOL_formats:
  assumes "POOL task_type = Some td" "has_keys (prompt_inputs td) line"
  shows "\<not> isl (format_str (prompt_template td) (line |` set (prompt_inputs td)))"
proof -
  consider
    (pointwise) "prompt_inputs td = [''query_text'', ''retrieved_text'']"
      "prompt_template td = QA_POINTWISE_RELEVANCE_PROMPT_TEMPLATE"
  | (pairwise) "prompt_inputs td = [''query_text'', ''positive_text'', ''retrieved_text'']"
      "prompt_template td = QA_PAIRWISE_RELEVANCE_PROMPT_TEMPLATE"
  | (chain) "prompt_inputs td = [''query_text'', ''retrieved_text'']"
      "prompt_template td = CHAIN_OF_THOUGHT_PROMPT_TEMPLATE"
    using assms(1) by (auto simp: POOL_def split: if_splits)
  then show ?thesis
  proof cases
    case pointwise
    obtain q d where "(line |` set (prompt_inputs td)) ''query_text'' = Some q"
        "(line |` set (prompt_inputs td)) ''retrieved_text'' = Some d"
      using has_keys_restrict [OF assms(2)] pointwise(1) by (metis list.set_intros)
    then show ?thesis
      unfolding pointwise(2) by (rule format_pointwise)
  next
    case pairwise
    obtain q p d where "(line |` set (prompt_inputs td)) ''query_text'' = Some q"
        "(line |` set (prompt_inputs td)) ''positive_text'' = Some p"
        "(line |` set (prompt_inputs td)) ''retrieved_text'' = Some d"
      using has_keys_restrict [OF assms(2)] pairwise(1) by (metis list.set_intros)
    then show ?thesis
      unfolding pairwise(2) by (rule format_pairwise)
  next
    case chain
    obtain q d where "(line |` set (prompt_inputs td)) ''query_text'' = Some q"
        "(line |` set (prompt_inputs td)) ''retrieved_text'' = Some d"
      using has_keys_restrict [OF assms(2)] chain(1) by (metis list.set_intros)
    then show ?thesis
      unfolding chain(2) by (rule format_chain_of_thought)
  qed
qed

lemma dict_comp_has_keys:
  "has_keys ks line \<Longrightarrow> \<exists>kvs. dict_comp ks line = Inr kvs \<and> map_of kvs = line |` set ks"
proof (induction ks)
  case Nil
  then show ?case by simp
next
  case (Cons k ks)
  then obtain v where v: "line k = Some v" and rest: "has_keys ks line"
    by (auto simp: has_keys_def)
  obtain kvs where kvs: "dict_comp ks line = Inr kvs" "map_of kvs = line |` set ks"
    using Cons.IH [OF rest] by blast
  have "map_of ((k, v) # kvs) = line |` set (k # ks)"
    using v kvs(2) by (auto simp: fun_eq_iff restrict_map_def)
  then show ?case
    using v kvs(1) by simp
qed

lemma prompts_loop_step:
  assumes "POOL task_type = Some td" "has_keys (prompt_inputs td @ metadata td) line"
  shows "\<exists>prompt. format_str (prompt_template td) (line |` set (prompt_inputs td)) = Inr prompt
           \<and> prompts_loop td (line # data) = Yield prompt (prompts_loop td data)"
proof -
  have hk: "has_keys (prompt_inputs td) line"
    using assms(2) by (simp add: has_keys_append)
  obtain kvs where kvs: "dict_comp (prompt_inputs td) line = Inr kvs"
      "map_of kvs = line |` set (prompt_inputs td)"
    using dict_comp_has_keys [OF hk] by blast
  obtain prompt where p: "format_str (prompt_template td) (line |` set (prompt_inputs td)) = Inr prompt"
    using POOL_formats [OF assms(1) hk]
    by (cases "format_str (prompt_template td) (line |` set (prompt_inputs td))") auto
  have "prompts_loop td (line # data) = Yield prompt (prompts_loop td data)"
    using assms(2) kvs p by simp
  then show ?thesis
    using p by blast
qed

lemma prompts_loop_yielded:
  assumes "POOL task_type = Some td"
  shows "map Inr (yielded (prompts_loop td data))
           = map (\<lambda>line. format_str (prompt_template td) (line |` set (prompt_inputs td)))
               (takeWhile (has_keys (prompt_inputs td @ metadata td)) data)
       \<and> ending (prompts_loop td data)
           = (if list_all (has_keys (prompt_inputs td @ metadata td)) data then None
              else Some AssertionError)"
proof (induction data)
  case Nil
  then show ?case by simp
next
  case (Cons line data)
  show ?case
  proof (cases "has_keys (prompt_inputs td @ metadata td) line")
    case True
    obtain prompt where
      "format_str (prompt_template td) (line |` set (prompt_inputs td)) = Inr prompt"
      "prompts_loop td (line # data) = Yield prompt (prompts_loop td data)"
      using prompts_loop_step [OF assms True] by blast
    then show ?thesis
      using Cons True by simp
  next
    case False
    then show ?thesis by simp
  qed
qed

text \<open>
  The formatter against the relation: \<open>format_str\<close> returns a prompt exactly when
  the prompt is the template with its fields replaced.
\<close>

lemma emit_Inr: "emit a (Inr t) = Inr (a @ t)"
  by (simp add: emit_def)

lemma fmt_scan_field:
  "CHR ''}'' \<notin> set cs \<Longrightarrow>
     fmt_scan kw (Field f) (cs @ CHR ''}'' # t)
       = (case get_field kw (f @ cs) of Inl e \<Rightarrow> Inl e | Inr v \<Rightarrow> emit v (fmt_scan kw Text t))"
  by (induction cs arbitrary: f) auto

lemma formatted_format_str:
  "formatted_with kw t p \<Longrightarrow> fmt_scan kw Text t = Inr p"
proof (induction rule: formatted_with.induct)
  case finished
  then show ?case by simp
next
  case (kept c template result)
  then show ?case by (simp add: emit_Inr)
next
  case (brace_open template result)
  then show ?case by (simp add: emit_Inr)
next
  case (brace_close template result)
  then show ?case by (simp add: emit_Inr)
next
  case (replaced name v template result)
  obtain c cs where name: "name = c # cs"
    using replaced.hyps(1) by (cases name) auto
  have c: "c \<noteq> CHR ''{''" "c \<noteq> CHR ''}''" and cs: "CHR ''}'' \<notin> set cs"
    using replaced.hyps(2,3) name by auto
  have g: "get_field kw (c # cs) = Inr v"
    using replaced.hyps(4,5) name by (simp add: get_field_def)
  have "fmt_scan kw Text (''{'' @ name @ ''}'' @ template)
      = fmt_scan kw (Field [c]) (cs @ CHR ''}'' # template)"
    using c name by simp
  also have "\<dots> = emit v (fmt_scan kw Text template)"
    using g by (simp only: fmt_scan_field [OF cs] append.simps sum.case)
  finally show ?case
    using replaced.IH by (simp add: emit_Inr)
qed

lemma fmt_scan_formatted:
  "fmt_scan kw st s = Inr p \<Longrightarrow>
     (case st of
        Text \<Rightarrow> formatted_with kw s p
      | Opened \<Rightarrow> formatted_with kw (CHR ''{'' # s) p
      | Closed \<Rightarrow> formatted_with kw (CHR ''}'' # s) p
      | Field f \<Rightarrow> f \<noteq> [] \<longrightarrow> hd f \<noteq> CHR ''{'' \<longrightarrow> CHR ''}'' \<notin> set f
                    \<longrightarrow> formatted_with kw (CHR ''{'' # f @ s) p)"
proof (induction s arbitrary: st p)
  case Nil
  then show ?case
    by (cases st) (simp_all add: formatted_with.finished)
next
  case (Cons c cs)
  show ?case
  proof (cases st)
    case Text
    show ?thesis
    proof (cases "c = CHR ''{''")
      case True
      then have "fmt_scan kw Opened cs = Inr p"
        using Cons.prems Text by simp
      then show ?thesis
        using Cons.IH [of Opened p] Text True by simp
    next
      case False
      note no_open = this
      show ?thesis
      proof (cases "c = CHR ''}''")
        case True
        then have "fmt_scan kw Closed cs = Inr p"
          using Cons.prems Text by simp
        then show ?thesis
          using Cons.IH [of Closed p] Text True by simp
      next
        case False
        then have "emit [c] (fmt_scan kw Text cs) = Inr p"
          using Cons.prems Text no_open by simp
        then obtain t where t: "fmt_scan kw Text cs = Inr t" "p = c # t"
          by (auto simp: emit_Inr_iff)
        have "formatted_with kw cs t"
          using Cons.IH [OF t(1)] by simp
        then show ?thesis
          using Text t(2) no_open False by (simp add: formatted_with.kept)
      qed
    qed
  next
    case Opened
    show ?thesis
    proof (cases "c = CHR ''{''")
      case True
      then have "emit ''{'' (fmt_scan kw Text cs) = Inr p"
        using Cons.prems Opened by simp
      then obtain t where t: "fmt_scan kw Text cs = Inr t" "p = CHR ''{'' # t"
        by (auto simp: emit_Inr_iff)
      have "formatted_with kw cs t"
        using Cons.IH [OF t(1)] by simp
      then have "formatted_with kw (''{{'' @ cs) (CHR ''{'' # t)"
        by (rule formatted_with.brace_open)
      then show ?thesis
        using Opened True t(2) by simp
    next
      case False
      have "c \<noteq> CHR ''}''"
        using Cons.prems Opened False by (auto simp: get_field_def)
      then have "fmt_scan kw (Field [c]) cs = Inr p"
        using Cons.prems Opened False by simp
      then show ?thesis
        using Cons.IH [of "Field [c]" p] Opened False \<open>c \<noteq> CHR ''}''\<close> by simp
    qed
  next
    case Closed
    then have c: "c = CHR ''}''" and "emit ''}'' (fmt_scan kw Text cs) = Inr p"
      using Cons.prems by (auto split: if_splits)
    then obtain t where t: "fmt_scan kw Text cs = Inr t" "p = CHR ''}'' # t"
      by (auto simp: emit_Inr_iff)
    have "formatted_with kw cs t"
      using Cons.IH [OF t(1)] by simp
    then have "formatted_with kw (''}}'' @ cs) (CHR ''}'' # t)"
      by (rule formatted_with.brace_close)
    then show ?thesis
      using Closed c t(2) by simp
  next
    case (Field f)
    show ?thesis
    proof (cases "c = CHR ''}''")
      case True
      have "f \<noteq> [] \<longrightarrow> hd f \<noteq> CHR ''{'' \<longrightarrow> CHR ''}'' \<notin> set f
          \<longrightarrow> formatted_with kw (CHR ''{'' # f @ c # cs) p"
      proof (intro impI)
        assume f: "f \<noteq> []" "hd f \<noteq> CHR ''{''" "CHR ''}'' \<notin> set f"
        obtain v where v: "get_field kw f = Inr v" "emit v (fmt_scan kw Text cs) = Inr p"
          using Cons.prems Field True by (auto split: sum.splits)
        obtain t where t: "fmt_scan kw Text cs = Inr t" "p = v @ t"
          using v(2) by (auto simp: emit_Inr_iff)
        have nd: "\<not> list_all (\<lambda>c. c \<in> set ''0123456789'') f" and kv: "kw f = Some v"
          using v(1) by (auto simp: get_field_def split: if_splits option.splits)
        have "formatted_with kw cs t"
          using Cons.IH [OF t(1)] by simp
        then have "formatted_with kw (''{'' @ f @ ''}'' @ cs) (v @ t)"
          using f nd kv by (intro formatted_with.replaced)
        then show "formatted_with kw (CHR ''{'' # f @ c # cs) p"
          using True t(2) by simp
      qed
      then show ?thesis
        using Field by simp
    next
      case False
      then have "fmt_scan kw (Field (f @ [c])) cs = Inr p"
        using Cons.prems Field by simp
      then have "f @ [c] \<noteq> [] \<longrightarrow> hd (f @ [c]) \<noteq> CHR ''{'' \<longrightarrow> CHR ''}'' \<notin> set (f @ [c])
          \<longrightarrow> formatted_with kw (CHR ''{'' # (f @ [c]) @ cs) p"
        using Cons.IH [of "Field (f @ [c])" p] by simp
      then show ?thesis
        using Field False by (auto simp: hd_append)
    qed
  qed
qed

lemma format_str_iff: "(format_str template kw = Inr prompt) = formatted_with kw template prompt"
  using fmt_scan_formatted [of kw Text template prompt] formatted_format_str [of kw template prompt]
  by (auto simp: format_str_def)

lemma prompts_loop_formatted:
  assumes "POOL task_type = Some td"
  shows "list_all2 (\<lambda>line prompt.
             \<forall>p. formatted_with (line |` set (prompt_inputs td)) (prompt_template td) p
                   = (p = prompt))
           (takeWhile (has_keys (prompt_inputs td @ metadata td)) data)
           (yielded (prompts_loop td data))"
proof (induction data)
  case Nil
  then show ?case by simp
next
  case (Cons line data)
  show ?case
  proof (cases "has_keys (prompt_inputs td @ metadata td) line")
    case True
    obtain prompt where p:
      "format_str (prompt_template td) (line |` set (prompt_inputs td)) = Inr prompt"
      "prompts_loop td (line # data) = Yield prompt (prompts_loop td data)"
      using prompts_loop_step [OF assms True] by blast
    have "\<forall>q. formatted_with (line |` set (prompt_inputs td)) (prompt_template td) q
        = (q = prompt)"
      using p(1) by (auto simp flip: format_str_iff)
    then show ?thesis
      using Cons True p(2) by simp
  next
    case False
    then show ?thesis by simp
  qed
qed

text \<open>
  C5, as stated, fails for a record that has all its keys and comes after one that does
  not: the generator ends with the AssertionError, so the third record of this list gets
  no prompt.
\<close>

theorem later_records_get_no_prompt:
  "has_keys [''query_text'', ''retrieved_text'', ''qid'', ''retrieved_doc_id'', ''human_judgment'']
     sample_line
   \<and> \<not> has_keys [''query_text'', ''retrieved_text'', ''qid'', ''retrieved_doc_id'', ''human_judgment'']
        broken_line
   \<and> yielded (generate_prompts [sample_line, broken_line, sample_line] ''qa_pointwise'')
       = [sample_prompt]
   \<and> ending (generate_prompts [sample_line, broken_line, sample_line] ''qa_pointwise'')
       = Some AssertionError"
  by code_simp

text \<open>
  C5. For a task type of \<open>POOL\<close>, \<^verbatim>\<open>generate_prompts\<close> yields exactly one
  prompt for each record that comes before the first record lacking a key of the task's
  prompt inputs or metadata, in record order. Each prompt is what \<open>format_str\<close>
  returns for the task's template and the prompt-input fields of its record, and it is
  the one string that is the template with every field replaced by the record's value.
  On reaching the first record that lacks a key it raises AssertionError, yielding
  nothing for that record or any later one; when no record lacks a key it ends normally.
\<close>

theorem generate_prompts_assertion:
  assumes "POOL task_type = Some td"
  shows "map Inr (yielded (generate_prompts data task_type))
           = map (\<lambda>line. format_str (prompt_template td) (line |` set (prompt_inputs td)))
               (takeWhile (has_keys (prompt_inputs td @ metadata td)) data)
       \<and> list_all2 (\<lambda>line prompt.
             \<forall>p. formatted_with (line |` set (prompt_inputs td)) (prompt_template td) p
                   = (p = prompt))
           (takeWhile (has_keys (prompt_inputs td @ metadata td)) data)
           (yielded (generate_prompts data task_type))
       \<and> ending (generate_prompts data task_type)
           = (if list_all (has_keys (prompt_inputs td @ metadata td)) data then None
              else Some AssertionError)"
  using prompts_loop_yielded [OF assms, of data] prompts_loop_formatted [OF assms, of data]
  by (simp add: generate_prompts_def assms)

theorem generate_prompts_assertion_witness:
  "POOL ''qa_pointwise'' \<noteq> None
   \<and> has_keys [''query_text'', ''retrieved_text'', ''qid'', ''retrieved_doc_id'', ''human_judgment'']
        sample_line
   \<and> yielded (generate_prompts [sample_line] ''qa_pointwise'') = [sample_prompt]
   \<and> ending (generate_prompts [sample_line] ''qa_pointwise'') = None
   \<and> formatted_with (sample_line |` {''query_text'', ''retrieved_text''})
        QA_POINTWISE_RELEVANCE_PROMPT_TEMPLATE sample_prompt"
proof -
  let ?keys = "[''query_text'', ''retrieved_text'', ''qid'', ''retrieved_doc_id'', ''human_judgment'']"
  let ?data = "[sample_line]"
  obtain td where td: "POOL ''qa_pointwise'' = Some td"
      and keys: "prompt_inputs td @ metadata td = ?keys"
      and pi: "prompt_inputs td = [''query_text'', ''retrieved_text'']"
      and pt: "prompt_template td = QA_POINTWISE_RELEVANCE_PROMPT_TEMPLATE"
    by (simp add: POOL_def)
  have g: "has_keys ?keys sample_line"
    by (simp add: has_keys_def sample_line_def)
  have g': "has_keys (prompt_inputs td @ metadata td) sample_line"
    unfolding keys by (rule g)
  have tw: "takeWhile (has_keys (prompt_inputs td @ metadata td)) ?data = ?data"
    using g' by simp
  have y: "yielded (generate_prompts ?data ''qa_pointwise'') = [sample_prompt]"
    by code_simp
  have l2: "list_all2 (\<lambda>line prompt.
           \<forall>p. formatted_with (line |` set (prompt_inputs td)) (prompt_template td) p
                 = (p = prompt))
         (takeWhile (has_keys (prompt_inputs td @ metadata td)) ?data)
         (yielded (generate_prompts ?data ''qa_pointwise''))"
      and e: "ending (generate_prompts ?data ''qa_pointwise'')
        = (if list_all (has_keys (prompt_inputs td @ metadata td)) ?data then None
           else Some AssertionError)"
    using generate_prompts_assertion [OF td, of ?data] by simp_all
  have "list_all2 (\<lambda>line prompt.
           \<forall>p. formatted_with (line |` set (prompt_inputs td)) (prompt_template td) p
                 = (p = prompt))
         ?data [sample_prompt]"
    using l2 unfolding tw y .
  then have "formatted_with (sample_line |` set (prompt_inputs td)) (prompt_template td)
      sample_prompt"
    by simp
  then have f: "formatted_with (sample_line |` {''query_text'', ''retrieved_text''})
      QA_POINTWISE_RELEVANCE_PROMPT_TEMPLATE sample_prompt"
    unfolding pi pt by simp
  have "ending (generate_prompts ?data ''qa_pointwise'') = None"
    using e g' by simp
  then show ?thesis
    using td g y f by simp
qed

section \<open>One verdict for each prompt\<close>

lemma judge_total: "\<exists>v. judge self output = Inr v"
proof (cases "clean_outputs self output = []")
  case True
  then show ?thesis by (simp add: judge_def)
next
  case False
  then show ?thesis
    using judge_winner [OF False] by blast
qed

lemma judge_projr: "judge self output = Inr (projr (judge self output))"
  using judge_total [of self "output"] by auto

lemma judge_all_list:
  "judge_all self outputs = gen_of_list (map (\<lambda>output. projr (judge self output)) outputs)"
proof (induction outputs)
  case Nil
  then show ?case by simp
next
  case (Cons out outs)
  obtain v where "judge self out = Inr v"
    using judge_total by blast
  then show ?case
    using Cons by simp
qed

lemma collect_gen_of_list: "collect (gen_of_list xs) = Inr xs"
  by (induction xs) simp_all

lemma call_list:
  "call self (gen_of_list ps) m b
     = gen_of_list (map (\<lambda>p. projr (judge self (pipeline self (gen_args self m b)
                                [\<lparr>role = ''user'', content = p\<rparr>]))) ps)"
  by (simp add: call_def collect_gen_of_list judge_all_list comp_def)

lemma prompts_loop_good:
  assumes "POOL task_type = Some td"
  shows "list_all (has_keys (prompt_inputs td @ metadata td)) data \<Longrightarrow>
    prompts_loop td data
      = gen_of_list (map (\<lambda>line. projr (format_str (prompt_template td)
                                   (line |` set (prompt_inputs td)))) data)"
proof (induction data)
  case Nil
  then show ?case by simp
next
  case (Cons line data)
  then have good: "has_keys (prompt_inputs td @ metadata td) line"
    by simp
  obtain prompt where
    "format_str (prompt_template td) (line |` set (prompt_inputs td)) = Inr prompt"
    "prompts_loop td (line # data) = Yield prompt (prompts_loop td data)"
    using prompts_loop_step [OF assms good] by blast
  then show ?case
    using Cons by simp
qed

lemma data_loop_good:
  "list_all (has_keys (prompt_inputs td @ metadata td)) data \<Longrightarrow>
     data_loop td data = gen_of_list data"
  by (induction data) simp_all

lemma zip_gen_lists: "zip_gen (gen_of_list xs) (gen_of_list ys) = gen_of_list (zip xs ys)"
proof (induction xs arbitrary: ys)
  case Nil
  then show ?case by simp
next
  case (Cons x xs)
  then show ?case by (cases ys) simp_all
qed


lemma zip_verdicts:
  assumes pool: "POOL task_type = Some td"
    and good: "list_all (has_keys (prompt_inputs td @ metadata td)) data"
  shows "\<exists>verdicts.
        zip_gen (call self (generate_prompts data task_type) m b) (generate_data data task_type)
          = gen_of_list (zip verdicts data)
        \<and> length verdicts = length data
        \<and> (\<forall>i < length data.
              \<exists>prompt.
                format_str (prompt_template td) ((data ! i) |` set (prompt_inputs td)) = Inr prompt
                \<and> judge self (pipeline self (gen_args self m b)
                                [\<lparr>role = ''user'', content = prompt\<rparr>])
                    = Inr (verdicts ! i))"
proof -
  let ?verdict = "\<lambda>p. projr (judge self (pipeline self (gen_args self m b)
                                [\<lparr>role = ''user'', content = p\<rparr>]))"
  let ?prompt = "\<lambda>line. projr (format_str (prompt_template td) (line |` set (prompt_inputs td)))"
  let ?ps = "map ?prompt data"
  have gp: "generate_prompts data task_type = gen_of_list ?ps"
    using prompts_loop_good [OF pool good] by (simp add: generate_prompts_def pool)
  have gd: "generate_data data task_type = gen_of_list data"
    using data_loop_good [OF good] by (simp add: generate_data_def pool)
  have z: "zip_gen (call self (generate_prompts data task_type) m b)
                   (generate_data data task_type)
      = gen_of_list (zip (map ?verdict ?ps) data)"
    unfolding gp gd call_list by (rule zip_gen_lists)
  have each: "\<exists>prompt.
      format_str (prompt_template td) ((data ! i) |` set (prompt_inputs td)) = Inr prompt
      \<and> judge self (pipeline self (gen_args self m b) [\<lparr>role = ''user'', content = prompt\<rparr>])
          = Inr (map ?verdict ?ps ! i)"
    if i: "i < length data" for i
  proof -
    have "has_keys (prompt_inputs td @ metadata td) (data ! i)"
      using good i by (simp add: list_all_length)
    then obtain prompt where
      p: "format_str (prompt_template td) ((data ! i) |` set (prompt_inputs td)) = Inr prompt"
      using prompts_loop_step [OF pool, of "data ! i" "[]"] by blast
    then have "?prompt (data ! i) = prompt"
      by simp
    then have "map ?verdict ?ps ! i = ?verdict prompt"
      using i by simp
    then show ?thesis
      using p judge_projr by metis
  qed
  have "length (map ?verdict ?ps) = length data"
    by simp
  then show ?thesis
    using z each by blast
qed




text \<open>
  The cell that stores the results builds one row for each record: the row holds the
  copied fields of the record and the verdict on the record's prompt.
\<close>

lemma outputs_loop_list:
  "list_all (\<lambda>pair. has_keys (metadata td @ prompt_inputs td) (snd pair)) pairs \<Longrightarrow>
   \<exists>outs. outputs_loop td (gen_of_list pairs) = Inr outs
     \<and> length outs = length pairs
     \<and> (\<forall>i < length pairs.
           (LLM_raw_response (outs ! i), LLM_mapped_response (outs ! i), LLM_agreement (outs ! i))
             = fst (pairs ! i)
           \<and> map_of (copied (outs ! i)) = snd (pairs ! i) |` set (metadata td @ prompt_inputs td))"
proof (induction pairs)
  case Nil
  then show ?case by simp
next
  case (Cons pair pairs)
  obtain raw mapped agreement line where pair: "pair = ((raw, mapped, agreement), line)"
    by (metis surj_pair)
  have "has_keys (metadata td @ prompt_inputs td) line"
    using Cons.prems pair by simp
  then obtain kvs where kvs: "dict_comp (metadata td @ prompt_inputs td) line = Inr kvs"
      "map_of kvs = line |` set (metadata td @ prompt_inputs td)"
    using dict_comp_has_keys by blast
  obtain outs where outs: "outputs_loop td (gen_of_list pairs) = Inr outs"
      "length outs = length pairs"
      "\<forall>i < length pairs.
         (LLM_raw_response (outs ! i), LLM_mapped_response (outs ! i), LLM_agreement (outs ! i))
           = fst (pairs ! i)
         \<and> map_of (copied (outs ! i)) = snd (pairs ! i) |` set (metadata td @ prompt_inputs td)"
    using Cons by auto
  let ?out = "\<lparr>copied = kvs, LLM_raw_response = raw, LLM_mapped_response = mapped,
               LLM_agreement = agreement\<rparr>"
  have run: "outputs_loop td (gen_of_list (pair # pairs)) = Inr (?out # outs)"
    using kvs(1) outs(1) pair by simp
  have "(LLM_raw_response ((?out # outs) ! i), LLM_mapped_response ((?out # outs) ! i),
         LLM_agreement ((?out # outs) ! i)) = fst ((pair # pairs) ! i)
      \<and> map_of (copied ((?out # outs) ! i))
          = snd ((pair # pairs) ! i) |` set (metadata td @ prompt_inputs td)"
    if "i < length (pair # pairs)" for i
    using that outs(3) kvs(2) pair by (cases i) simp_all
  then show ?case
    using run outs(2) by auto
qed

lemma run_outputs_rows:
  assumes pool: "POOL task_type = Some td"
    and good: "list_all (has_keys (prompt_inputs td @ metadata td)) data"
  shows "\<exists>outs. run_outputs self data task_type b = Inr outs
     \<and> length outs = length data
     \<and> (\<forall>i < length data.
           map_of (copied (outs ! i)) = (data ! i) |` set (metadata td @ prompt_inputs td)
           \<and> (\<exists>prompt.
                 format_str (prompt_template td) ((data ! i) |` set (prompt_inputs td)) = Inr prompt
                 \<and> judge self (pipeline self (gen_args self (max_output_tokens td) b)
                                 [\<lparr>role = ''user'', content = prompt\<rparr>])
                     = Inr (LLM_raw_response (outs ! i), LLM_mapped_response (outs ! i),
                            LLM_agreement (outs ! i))))"
proof -
  obtain verdicts where v:
    "zip_gen (call self (generate_prompts data task_type) (max_output_tokens td) b)
             (generate_data data task_type) = gen_of_list (zip verdicts data)"
    "length verdicts = length data"
    "\<forall>i < length data.
       \<exists>prompt.
         format_str (prompt_template td) ((data ! i) |` set (prompt_inputs td)) = Inr prompt
         \<and> judge self (pipeline self (gen_args self (max_output_tokens td) b)
                         [\<lparr>role = ''user'', content = prompt\<rparr>]) = Inr (verdicts ! i)"
    using zip_verdicts [OF pool good] by blast
  have "list_all (has_keys (metadata td @ prompt_inputs td)) data"
    using good by (auto simp: has_keys_def list_all_iff)
  then have "list_all (\<lambda>pair. has_keys (metadata td @ prompt_inputs td) (snd pair))
      (zip verdicts data)"
    by (auto simp: list_all_iff dest: set_zip_rightD)
  then obtain outs where outs: "outputs_loop td (gen_of_list (zip verdicts data)) = Inr outs"
      "length outs = length (zip verdicts data)"
      "\<forall>i < length (zip verdicts data).
         (LLM_raw_response (outs ! i), LLM_mapped_response (outs ! i), LLM_agreement (outs ! i))
           = fst (zip verdicts data ! i)
         \<and> map_of (copied (outs ! i))
             = snd (zip verdicts data ! i) |` set (metadata td @ prompt_inputs td)"
    using outputs_loop_list by blast
  have run: "run_outputs self data task_type b = Inr outs"
    by (simp add: run_outputs_def pool v(1) outs(1))
  have len: "length outs = length data"
    using outs(2) v(2) by simp
  have "map_of (copied (outs ! i)) = (data ! i) |` set (metadata td @ prompt_inputs td)
      \<and> (\<exists>prompt.
            format_str (prompt_template td) ((data ! i) |` set (prompt_inputs td)) = Inr prompt
            \<and> judge self (pipeline self (gen_args self (max_output_tokens td) b)
                            [\<lparr>role = ''user'', content = prompt\<rparr>])
                = Inr (LLM_raw_response (outs ! i), LLM_mapped_response (outs ! i),
                       LLM_agreement (outs ! i)))"
    if i: "i < length data" for i
  proof -
    have "i < length (zip verdicts data)"
      using i v(2) by simp
    then have "(LLM_raw_response (outs ! i), LLM_mapped_response (outs ! i),
                LLM_agreement (outs ! i)) = verdicts ! i"
        "map_of (copied (outs ! i)) = (data ! i) |` set (metadata td @ prompt_inputs td)"
      using outs(3) i v(2) by simp_all
    then show ?thesis
      using v(3) i by simp
  qed
  then show ?thesis
    using run len by blast
qed

end
